theory Spec2Isabelle
  imports Complex_Main
begin

section \<open>Numbers\<close>

text \<open>
  JavaScript numbers are modelled as exact reals: every statement below is about the
  arithmetic the program writes down, not about IEEE-754 rounding.  A count of marks is
  a natural number.
\<close>

definition jsmod :: "real \<Rightarrow> real \<Rightarrow> real" where
  \<comment> \<open>JavaScript \<^verbatim>\<open>x % m\<close>: the remainder takes the sign of the dividend (truncated quotient).\<close>
  "jsmod x m =
     (if 0 \<le> x / m then x - m * real_of_int \<lfloor>x / m\<rfloor>
      else x - m * real_of_int \<lceil>x / m\<rceil>)"

definition toFixed0 :: "real \<Rightarrow> real" where
  \<comment> \<open>The number denoted by \<^verbatim>\<open>x.toFixed(0)\<close>: nearest integer, halves away from zero.\<close>
  "toFixed0 x =
     (if x < 0 then - real_of_int \<lfloor>- x + 1 / 2\<rfloor> else real_of_int \<lfloor>x + 1 / 2\<rfloor>)"

section \<open>Best-phase records and the guided scan\<close>

subsection \<open>State\<close>

record PhaseRecord =
  phase :: real
  count :: nat

datatype timer =
    ScanAdvance nat  \<comment> \<open>the \<^verbatim>\<open>setTimeout\<close> of \<^verbatim>\<open>runScanPhase\<close>, with its delay in ms\<close>
  | Countdown nat    \<comment> \<open>the \<^verbatim>\<open>setInterval\<close> of \<^verbatim>\<open>startCountdown\<close>, with the dwell in ms\<close>
  | SweepFrame       \<comment> \<open>the animation frame requested by the autosweep\<close>

datatype error = TypeError | InvalidStateError

text \<open>
  The globals of \<^verbatim>\<open>app.js\<close> that the scan, the Mark button and the Stop button read and
  write.  \<^verbatim>\<open>phaseRange\<close> is the phase slider (\<open>None\<close> when the element is missing from
  the page, otherwise the number its value denotes); \<^verbatim>\<open>freqSelect\<close> is the band selector:
  the string that is its value (the key of the per-band record) with what \<^verbatim>\<open>parseFloat\<close>
  makes of that string (\<open>None\<close> for \<^verbatim>\<open>NaN\<close>).  \<open>stored\<close> is the \<^verbatim>\<open>bestPhaseHistory\<close>
  entry of localStorage and \<open>storageOk\<close> says whether \<^verbatim>\<open>localStorage.setItem\<close> succeeds
  (a failure is swallowed by \<^verbatim>\<open>savePhaseHistory\<close>).  \<open>pending\<close> is the browser's table of
  scheduled callbacks owned by this part of the program, \<open>nextTimer\<close> the next free
  handle.  \<^verbatim>\<open>scanCounts\<close> is a sparse array that is only ever read through
  \<^verbatim>\<open>scanCounts[i] || 0\<close>: a partial map from index to count.
\<close>

record band =
  bandValue :: string
  bandParsed :: "real option"

record scan_state =
  bestPhaseByBand :: "string \<rightharpoonup> PhaseRecord"
  stored :: "string \<rightharpoonup> PhaseRecord"
  storageOk :: bool
  phaseRange :: "real option"
  freqSelect :: "band option"
  scanning :: bool
  scanTier :: nat
  scanPhases :: "real list"
  scanCounts :: "nat \<rightharpoonup> nat"
  scanIndex :: nat
  scanTimeoutId :: "nat option"
  countdownInterval :: "nat option"
  sweepIsRunning :: bool
  sweepAnimId :: "nat option"
  pending :: "nat \<rightharpoonup> timer"
  nextTimer :: nat

subsection \<open>Timers\<close>

definition setTimer :: "timer \<Rightarrow> scan_state \<Rightarrow> nat \<times> scan_state" where
  \<comment> \<open>\<^verbatim>\<open>setTimeout\<close> / \<^verbatim>\<open>setInterval\<close> / \<^verbatim>\<open>requestAnimationFrame\<close>: a fresh handle.\<close>
  "setTimer t s =
     (nextTimer s, s\<lparr>pending := (pending s)(nextTimer s \<mapsto> t), nextTimer := Suc (nextTimer s)\<rparr>)"

definition clearTimer :: "nat option \<Rightarrow> scan_state \<Rightarrow> scan_state" where
  \<comment> \<open>\<^verbatim>\<open>clearTimeout\<close> / \<^verbatim>\<open>clearInterval\<close> / \<^verbatim>\<open>cancelAnimationFrame\<close>; \<^verbatim>\<open>null\<close> is ignored.\<close>
  "clearTimer h s =
     (case h of None \<Rightarrow> s | Some i \<Rightarrow> s\<lparr>pending := (pending s)(i := None)\<rparr>)"

subsection \<open>Persistence and marking\<close>

definition getExploreBandKey :: "scan_state \<Rightarrow> string" where
  "getExploreBandKey s = (case freqSelect s of Some b \<Rightarrow> bandValue b | None \<Rightarrow> ''7.83'')"

definition savePhaseHistory :: "scan_state \<Rightarrow> scan_state" where
  "savePhaseHistory s = (if storageOk s then s\<lparr>stored := bestPhaseByBand s\<rparr> else s)"

definition loadPhaseHistory :: "scan_state \<Rightarrow> scan_state" where
  \<comment> \<open>Startup: every stored record is copied into \<^verbatim>\<open>bestPhaseByBand\<close>, unvalidated.\<close>
  "loadPhaseHistory s = s\<lparr>bestPhaseByBand := bestPhaseByBand s ++ stored s\<rparr>"

definition handleMarkStrongest :: "scan_state \<Rightarrow> scan_state" where
  \<comment> \<open>The vibration, the chime and the three display refreshes do not touch this state.\<close>
  "handleMarkStrongest s =
     (case phaseRange s of
        None \<Rightarrow> s
      | Some v \<Rightarrow>
          let phase = v;
              s1 = (if scanning s
                    then s\<lparr>scanCounts := (scanCounts s)(scanIndex s \<mapsto>
                            (case scanCounts s (scanIndex s) of None \<Rightarrow> 0 | Some c \<Rightarrow> c) + 1)\<rparr>
                    else s);
              key = getExploreBandKey s1;
              s2 = (case bestPhaseByBand s1 key of
                      None \<Rightarrow> s1\<lparr>bestPhaseByBand := (bestPhaseByBand s1)(key \<mapsto>
                                 \<lparr>phase = phase, count = 1\<rparr>)\<rparr>
                    | Some current \<Rightarrow>
                        let count = count current + 1;
                            avg = PhaseRecord.phase current
                                  + (phase - PhaseRecord.phase current) / real count
                        in s1\<lparr>bestPhaseByBand := (bestPhaseByBand s1)(key \<mapsto>
                                 \<lparr>phase = avg, count = count\<rparr>)\<rparr>)
          in savePhaseHistory s2)"

text \<open>Moving the phase slider by hand (or by the autosweep) and then pressing Mark.\<close>

definition markAt :: "real \<Rightarrow> scan_state \<Rightarrow> scan_state" where
  "markAt v s = handleMarkStrongest (s\<lparr>phaseRange := Some v\<rparr>)"

subsection \<open>The two-tier scan\<close>

record result =
  rphase :: real
  rcount :: nat

definition results :: "real list \<Rightarrow> (nat \<rightharpoonup> nat) \<Rightarrow> result list" where
  \<comment> \<open>\<^verbatim>\<open>scanPhases.map((p, i) => ({phase: p, count: scanCounts[i] || 0}))\<close> followed by the
      stable \<^verbatim>\<open>sort((a, b) => b.count - a.count)\<close>.\<close>
  "results ps cs =
     sort_key (\<lambda>r. - int (rcount r))
       (map (\<lambda>(p, i). \<lparr>rphase = p, rcount = (case cs i of None \<Rightarrow> 0 | Some c \<Rightarrow> c)\<rparr>)
            (zip ps [0 ..< length ps]))"

definition tier2Phases :: "real list \<Rightarrow> (nat \<rightharpoonup> nat) \<Rightarrow> real list" where
  \<comment> \<open>The Tier-2 branch of \<^verbatim>\<open>runScanPhase\<close>, as a function of the \<^verbatim>\<open>scanPhases\<close> and
      \<^verbatim>\<open>scanCounts\<close> it reads.\<close>
  "tier2Phases ps cs =
     (let rs = results ps cs;
          p1 = (case rs of [] \<Rightarrow> 0 | r # _ \<Rightarrow> rphase r);
          p2 = (case rs of _ # r # _ \<Rightarrow> rphase r | _ \<Rightarrow> 360);
          (p1, p2) = (if p2 < p1 then (p2, p1) else (p1, p2));
          p2 = (if p1 = p2 then jsmod (p1 + 120) 360 else p2);
          span = jsmod (p2 - p1 + 360) 360;
          step = span / 6
      in map (\<lambda>i. jsmod (p1 + step * real i + 360) 360) [0 ..< 7])"

text \<open>
  \<^verbatim>\<open>startCountdown\<close> on a page that has its scan-progress panel: \<^verbatim>\<open>scanCountdownElem\<close> is
  there, so the early return \<^verbatim>\<open>if (!scanCountdownElem) return\<close> is not taken.
\<close>

definition startCountdown :: "nat \<Rightarrow> scan_state \<Rightarrow> scan_state" where
  "startCountdown duration s =
     (let s1 = clearTimer (countdownInterval s) s;
          (h, s2) = setTimer (Countdown duration) s1
      in s2\<lparr>countdownInterval := Some h\<rparr>)"

text \<open>
  \<^verbatim>\<open>runScanPhase\<close> in its three blocks: the candidates of a tier are computed on its first
  step; a tier that has presented all its candidates either hands over to Tier 2 or
  completes the scan; otherwise the current candidate is presented and the next step is
  scheduled.
\<close>

definition computePhases :: "scan_state \<Rightarrow> scan_state" where
  \<comment> \<open>\<^verbatim>\<open>if (scanIndex === 0 && scanPhases.length === 0) { ... }\<close>\<close>
  "computePhases s =
     (if scanIndex s = 0 \<and> length (scanPhases s) = 0
      then (if scanTier s = 1
            then s\<lparr>scanPhases := [0, 60, 120, 180, 240, 300, 360]\<rparr>
            else if scanTier s = 2
            then s\<lparr>scanPhases := tier2Phases (scanPhases s) (scanCounts s)\<rparr>
            else s)
      else s)"

definition completeScan :: "scan_state \<Rightarrow> error + scan_state" where
  \<comment> \<open>The \<^verbatim>\<open>else\<close> branch "Completed second tier".  With no candidate at all, \<^verbatim>\<open>best\<close> is
      \<^verbatim>\<open>undefined\<close> and \<^verbatim>\<open>best.toFixed\<close> throws.\<close>
  "completeScan s =
     (case scanPhases s of
        [] \<Rightarrow> Inl TypeError
      | _ # _ \<Rightarrow>
          let best = rphase (hd (results (scanPhases s) (scanCounts s)));
              key = getExploreBandKey s;
              s = (case bestPhaseByBand s key of
                     None \<Rightarrow> s\<lparr>bestPhaseByBand := (bestPhaseByBand s)(key \<mapsto>
                                \<lparr>phase = best, count = 1\<rparr>)\<rparr>
                   | Some current \<Rightarrow>
                       s\<lparr>bestPhaseByBand := (bestPhaseByBand s)(key \<mapsto>
                                \<lparr>phase = best, count = count current\<rparr>)\<rparr>);
              s = savePhaseHistory s;
              s = (case phaseRange s of
                     None \<Rightarrow> s
                   | Some _ \<Rightarrow> s\<lparr>phaseRange := Some (toFixed0 best)\<rparr>);
              s = s\<lparr>scanning := False, scanTier := 0, scanPhases := [],
                     scanCounts := Map.empty, scanIndex := 0\<rparr>
          in Inr (clearTimer (countdownInterval s) s))"

definition presentCandidate :: "nat \<Rightarrow> nat \<Rightarrow> scan_state \<Rightarrow> scan_state" where
  \<comment> \<open>"Set phase for current scan index", the countdown, and the timeout that advances.\<close>
  "presentCandidate dwell fade s =
     (let target = scanPhases s ! scanIndex s;
          s = (case phaseRange s of
                 None \<Rightarrow> s
               | Some _ \<Rightarrow> s\<lparr>phaseRange := Some (toFixed0 target)\<rparr>);
          s = startCountdown dwell s;
          total = dwell + fade;
          (h, s) = setTimer (ScanAdvance total) s
      in s\<lparr>scanTimeoutId := Some h\<rparr>)"

function runScanPhase :: "scan_state \<Rightarrow> error + scan_state" where
  "runScanPhase s =
     (if \<not> scanning s then Inr s
      else
        let dwell = (if scanTier s = 1 then 3000 else 5000);
            fade = (if scanTier s = 1 then 1000 else 3000);
            s1 = computePhases s
        in if scanIndex s1 \<ge> length (scanPhases s1)
           then (if scanTier s1 = 1
                 then runScanPhase
                        (s1\<lparr>scanTier := 2, scanIndex := 0, scanCounts := Map.empty,
                            scanPhases := []\<rparr>)
                 else completeScan s1)
           else Inr (presentCandidate dwell fade s1))"
  by pat_completeness auto
termination
  by (relation "measure (\<lambda>s. if scanning s \<and> scanTier s = 1 then 1 else 0)")
     (auto simp: computePhases_def split: if_splits)

declare runScanPhase.simps [simp del]

section \<open>The audio graph\<close>

subsection \<open>Nodes, media elements and the globals that own them\<close>

datatype kind =
    Oscillator | ConstantSource | BufferSource | MediaElementSource
  | Gain | StereoPanner | Delay | BiquadFilter | Convolver | Analyser

datatype target = ToNode nat | ToParam nat | Destination

text \<open>
  A node of the Web Audio graph: \<open>param\<close> is its one parameter the program sets
  (frequency, gain, pan, delay time, cut-off), \<open>running\<close> holds between \<^verbatim>\<open>start()\<close> and
  \<^verbatim>\<open>stop()\<close>, \<open>outs\<close> are its outgoing connections.  A node is named by its index in
  \<open>nodes\<close>; nodes are never removed from that list, so that what is left running after a
  teardown can be observed.
\<close>

record node =
  kind :: kind
  param :: real
  running :: bool
  outs :: "target list"

datatype atimer = BirdsPattern | WavesPattern | ChordCycle | ScopeFrame

text \<open>
  What the build reads but does not own: the mode pills, selectors and sliders, the
  sample buffers that have been decoded so far, whether a streamed media element can be
  created, and whether the scope canvas exists.
\<close>

record controls =
  stimulationMode :: string
  selectedIR :: string
  chordInstrument :: string
  chordLoopSelected :: bool
  carrierRange :: "real option"
  depthRange :: "real option"
  volumeRange :: "real option"
  toneMixRange :: "real option"
  oceanVal :: real
  rainVal :: real
  birdsVal :: real
  wavesVal :: real
  oceanSampleBuffer :: bool
  rainSampleBuffer :: bool
  birdsSampleBuffer :: bool
  wavesSampleBuffer :: bool
  mediaOk :: bool
  scopeCanvas :: bool

record audio_state =
  audioCtx :: bool
  nodes :: "node list"
  medias :: "bool list"
  baseOsc :: "nat option"
  baseGain :: "nat option"
  masterGain :: "nat option"
  analyser :: "nat option"
  oceanSource :: "nat option"
  oceanGain :: "nat option"
  rainSource :: "nat option"
  rainGain :: "nat option"
  wavesSource :: "nat option"
  wavesGain :: "nat option"
  birdsSource :: "nat option"
  birdsGain :: "nat option"
  birdsStreamEl :: "nat option"
  wavesStreamEl :: "nat option"
  birdsIsSample :: bool
  wavesIsSample :: bool
  birdsPatternTimer :: "nat option"
  wavesPatternTimer :: "nat option"
  scopeAnimId :: "nat option"
  extraNodes :: "nat list"
  motionLfo :: "nat option"
  motionGainNode :: "nat option"
  motionPanners :: "nat list"
  chordOscs :: "nat list"
  chordTimer :: "nat option"
  chordIndex :: nat
  chordBufferSource :: "nat option"
  atimers :: "nat \<rightharpoonup> atimer"
  anext :: nat

subsection \<open>The Web Audio operations the program calls\<close>

definition newNode :: "kind \<Rightarrow> real \<Rightarrow> audio_state \<Rightarrow> nat \<times> audio_state" where
  "newNode k v s =
     (length (nodes s),
      s\<lparr>nodes := nodes s @ [\<lparr>kind = k, param = v, running = False, outs = []\<rparr>]\<rparr>)"

definition connect :: "nat \<Rightarrow> target \<Rightarrow> audio_state \<Rightarrow> audio_state" where
  "connect a t s = s\<lparr>nodes := (nodes s)[a := (nodes s ! a)\<lparr>outs := outs (nodes s ! a) @ [t]\<rparr>]\<rparr>"

definition setParam :: "nat \<Rightarrow> real \<Rightarrow> audio_state \<Rightarrow> audio_state" where
  "setParam a v s = s\<lparr>nodes := (nodes s)[a := (nodes s ! a)\<lparr>param := v\<rparr>]\<rparr>"

definition startNode :: "nat \<Rightarrow> audio_state \<Rightarrow> audio_state" where
  "startNode a s = s\<lparr>nodes := (nodes s)[a := (nodes s ! a)\<lparr>running := True\<rparr>]\<rparr>"

definition stopDisconnect :: "nat \<Rightarrow> audio_state \<Rightarrow> audio_state" where
  \<comment> \<open>\<^verbatim>\<open>try { node.stop(); } catch {}\<close> then \<^verbatim>\<open>try { node.disconnect(); } catch {}\<close>: a node
      without a \<^verbatim>\<open>stop\<close> method, or one never started, throws and the throw is swallowed.\<close>
  "stopDisconnect a s =
     s\<lparr>nodes := (nodes s)[a := (nodes s ! a)\<lparr>running := False, outs := []\<rparr>]\<rparr>"

definition disconnect :: "nat \<Rightarrow> audio_state \<Rightarrow> audio_state" where
  "disconnect a s = s\<lparr>nodes := (nodes s)[a := (nodes s ! a)\<lparr>outs := []\<rparr>]\<rparr>"

definition safeStop :: "nat option \<Rightarrow> audio_state \<Rightarrow> audio_state" where
  "safeStop h s = (case h of None \<Rightarrow> s | Some a \<Rightarrow> stopDisconnect a s)"

definition setATimer :: "atimer \<Rightarrow> audio_state \<Rightarrow> nat \<times> audio_state" where
  "setATimer t s =
     (anext s, s\<lparr>atimers := (atimers s)(anext s \<mapsto> t), anext := Suc (anext s)\<rparr>)"

definition clearATimer :: "nat option \<Rightarrow> audio_state \<Rightarrow> audio_state" where
  "clearATimer h s =
     (case h of None \<Rightarrow> s | Some i \<Rightarrow> s\<lparr>atimers := (atimers s)(i := None)\<rparr>)"

subsection \<open>Teardown\<close>

definition stopChordBuffer :: "audio_state \<Rightarrow> audio_state" where
  "stopChordBuffer s =
     (case chordBufferSource s of
        None \<Rightarrow> s
      | Some a \<Rightarrow> (stopDisconnect a s)\<lparr>chordBufferSource := None\<rparr>)"

definition stopChordProgression :: "audio_state \<Rightarrow> audio_state" where
  "stopChordProgression s =
     (let s = (case chordTimer s of
                 None \<Rightarrow> s
               | Some i \<Rightarrow> (clearATimer (Some i) s)\<lparr>chordTimer := None\<rparr>);
          s = fold stopDisconnect (chordOscs s) s;
          s = s\<lparr>chordOscs := []\<rparr>
      in stopChordBuffer s)"

definition stopCurrentAudio :: "audio_state \<Rightarrow> audio_state" where
  "stopCurrentAudio s =
     (let s = safeStop (baseOsc s) s;
          s = safeStop (oceanSource s) s;
          s = safeStop (rainSource s) s;
          s = safeStop (wavesSource s) s;
          s = (fold stopDisconnect (extraNodes s) s)\<lparr>extraNodes := []\<rparr>;
          s = safeStop (motionLfo s) s;
          s = safeStop (motionGainNode s) s;
          s = s\<lparr>motionLfo := None, motionGainNode := None\<rparr>;
          s = (fold disconnect (motionPanners s) s)\<lparr>motionPanners := []\<rparr>;
          s = stopChordProgression s;
          s = (case birdsPatternTimer s of
                 None \<Rightarrow> s
               | Some i \<Rightarrow> (clearATimer (Some i) s)\<lparr>birdsPatternTimer := None\<rparr>);
          s = (case wavesPatternTimer s of
                 None \<Rightarrow> s
               | Some i \<Rightarrow> (clearATimer (Some i) s)\<lparr>wavesPatternTimer := None\<rparr>);
          s = (case scopeAnimId s of
                 None \<Rightarrow> s
               | Some i \<Rightarrow> (clearATimer (Some i) s)\<lparr>scopeAnimId := None\<rparr>)
      in s\<lparr>analyser := None, baseOsc := None, baseGain := None, masterGain := None,
            oceanSource := None, oceanGain := None, rainSource := None, rainGain := None,
            wavesSource := None, wavesGain := None\<rparr>)"

subsection \<open>Mode synthesis\<close>

definition mapBandToAudible :: "real \<Rightarrow> real" where
  "mapBandToAudible freqHz = 200 + freqHz * 3"

definition getToneMix :: "controls \<Rightarrow> real" where
  "getToneMix c = (case toneMixRange c of None \<Rightarrow> 1 | Some v \<Rightarrow> max 0 (min 1 v))"

record echo_options =
  centerGainScale :: real
  echoGainScale :: real
  leftDelaySec :: real
  rightDelaySec :: real
  toneMix :: real
  splitMin :: real
  splitMax :: real

definition defaultEchoOptions :: echo_options where
  "defaultEchoOptions =
     \<lparr>centerGainScale = 0.21, echoGainScale = 0.26, leftDelaySec = 0.11,
      rightDelaySec = 0.14, toneMix = 1, splitMin = 0.35, splitMax = 0.65\<rparr>"

text \<open>\<open>u\<close> is the value \<^verbatim>\<open>Math.random()\<close> returns, a number in \<open>[0, 1)\<close>.\<close>

definition createBandSplitEchoCluster ::
  "real \<Rightarrow> real \<Rightarrow> real \<Rightarrow> echo_options \<Rightarrow> real \<Rightarrow> audio_state \<Rightarrow> audio_state" where
  "createBandSplitEchoCluster audibleHz freqHz depthVal opts u s =
     (case (audioCtx s, masterGain s, baseGain s, baseOsc s) of
        (True, Some master, Some bg, Some _) \<Rightarrow>
          let randFrac = splitMin opts + u * (splitMax opts - splitMin opts);
              leftDiff = freqHz * randFrac;
              rightDiff = freqHz * (1 - randFrac);
              s = setParam bg (depthVal * centerGainScale opts * toneMix opts) s;
              (leftEchoOsc, s) = newNode Oscillator (audibleHz + leftDiff) s;
              (rightEchoOsc, s) = newNode Oscillator (audibleHz - rightDiff) s;
              (leftDelay, s) = newNode Delay (leftDelaySec opts) s;
              (rightDelay, s) = newNode Delay (rightDelaySec opts) s;
              (leftGain, s) = newNode Gain (depthVal * echoGainScale opts * toneMix opts) s;
              (rightGain, s) = newNode Gain (depthVal * echoGainScale opts * toneMix opts) s;
              (leftPan, s) = newNode StereoPanner (- 1) s;
              (rightPan, s) = newNode StereoPanner 1 s;
              s = connect leftEchoOsc (ToNode leftDelay) s;
              s = connect leftDelay (ToNode leftGain) s;
              s = connect leftGain (ToNode leftPan) s;
              s = connect leftPan (ToNode master) s;
              s = connect rightEchoOsc (ToNode rightDelay) s;
              s = connect rightDelay (ToNode rightGain) s;
              s = connect rightGain (ToNode rightPan) s;
              s = connect rightPan (ToNode master) s;
              s = startNode leftEchoOsc s;
              s = startNode rightEchoOsc s
          in s\<lparr>extraNodes := extraNodes s @
                 [leftEchoOsc, rightEchoOsc, leftDelay, rightDelay,
                  leftGain, rightGain, leftPan, rightPan]\<rparr>
      | _ \<Rightarrow> s)"

text \<open>
  \<^verbatim>\<open>startGraph\<close>, first part: teardown of the previous graph, the mix bus and analysis
  tap, the optional convolution branch (its wet gain stays 0 until the impulse response
  has been decoded), the stereo-motion oscillator and the carrier.
\<close>

definition buildBus :: "controls \<Rightarrow> real \<Rightarrow> audio_state \<Rightarrow> audio_state" where
  "buildBus c freqHz s =
     (let s = stopCurrentAudio s;
          s = s\<lparr>audioCtx := True\<rparr>;
          audibleHz = mapBandToAudible freqHz;
          volVal = (case volumeRange c of Some v \<Rightarrow> v | None \<Rightarrow> 0.5);
          (master, s) = newNode Gain volVal s;
          s = s\<lparr>masterGain := Some master\<rparr>;
          (an, s) = newNode Analyser 0 s;
          s = s\<lparr>analyser := Some an\<rparr>;
          s = connect master (ToNode an) s;
          s = connect an Destination s;
          s = (if selectedIR c \<noteq> [] \<and> selectedIR c \<noteq> ''none''
               then let (conv, s) = newNode Convolver 0 s;
                        (wetGain, s) = newNode Gain 0 s;
                        s = connect master (ToNode conv) s;
                        s = connect conv (ToNode wetGain) s;
                        s = connect wetGain Destination s
                    in s\<lparr>extraNodes := extraNodes s @ [conv, wetGain]\<rparr>
               else s);
          s = (fold disconnect (motionPanners s) s)\<lparr>motionPanners := []\<rparr>;
          motionHz = max 0.03 (min 0.12 (freqHz / 128));
          (lfo, s) = newNode Oscillator motionHz s;
          s = s\<lparr>motionLfo := Some lfo\<rparr>;
          (mg, s) = newNode Gain 0.35 s;
          s = s\<lparr>motionGainNode := Some mg\<rparr>;
          s = connect lfo (ToNode mg) s;
          s = startNode lfo s;
          s = s\<lparr>extraNodes := extraNodes s @ [lfo, mg]\<rparr>;
          (osc, s) = newNode Oscillator audibleHz s;
          s = s\<lparr>baseOsc := Some osc\<rparr>;
          depthVal = (case depthRange c of Some d \<Rightarrow> d | None \<Rightarrow> 0.7);
          (bg, s) = newNode Gain (depthVal * 0.6 * getToneMix c) s;
          s = s\<lparr>baseGain := Some bg\<rparr>;
          s = connect osc (ToNode bg) s
      in connect bg (ToNode master) s)"

text \<open>
  Second part: the stimulation mode.  It runs right after \<open>buildBus\<close>, which has just
  assigned \<^verbatim>\<open>masterGain\<close> and \<^verbatim>\<open>baseGain\<close>; the last case is never taken there.
\<close>

definition buildMode :: "controls \<Rightarrow> real \<Rightarrow> real \<Rightarrow> audio_state \<Rightarrow> audio_state" where
  "buildMode c freqHz u s =
     (let audibleHz = mapBandToAudible freqHz;
          depthVal = (case depthRange c of Some d \<Rightarrow> d | None \<Rightarrow> 0.7);
          toneMix = getToneMix c
      in case (masterGain s, baseGain s) of
           (Some master, Some bg) \<Rightarrow>
         if stimulationMode c = ''am''
         then let (modOsc, s) = newNode Oscillator freqHz s;
                  (modGain, s) = newNode Gain (depthVal * 0.3 * toneMix) s;
                  (offset, s) = newNode ConstantSource (depthVal * 0.3 * toneMix) s;
                  s = connect modOsc (ToNode modGain) s;
                  s = connect modGain (ToParam bg) s;
                  s = connect offset (ToParam bg) s;
                  s = startNode offset s;
                  s = startNode modOsc s
              in s\<lparr>extraNodes := extraNodes s @ [modOsc, modGain, offset]\<rparr>
         else if stimulationMode c = ''binaural''
         then let s = setParam bg 0 s;
                  halfDiff = freqHz / 2;
                  (leftOsc, s) = newNode Oscillator (audibleHz + halfDiff) s;
                  (rightOsc, s) = newNode Oscillator (audibleHz - halfDiff) s;
                  (leftGain, s) = newNode Gain (depthVal * 0.6 * toneMix) s;
                  (rightGain, s) = newNode Gain (depthVal * 0.6 * toneMix) s;
                  (leftPan, s) = newNode StereoPanner (- 1) s;
                  (rightPan, s) = newNode StereoPanner 1 s;
                  s = connect leftOsc (ToNode leftGain) s;
                  s = connect leftGain (ToNode leftPan) s;
                  s = connect leftPan (ToNode master) s;
                  s = connect rightOsc (ToNode rightGain) s;
                  s = connect rightGain (ToNode rightPan) s;
                  s = connect rightPan (ToNode master) s;
                  s = startNode leftOsc s;
                  s = startNode rightOsc s
              in s\<lparr>extraNodes := extraNodes s @
                     [leftOsc, rightOsc, leftGain, rightGain, leftPan, rightPan]\<rparr>
         else if stimulationMode c = ''ambient''
         then setParam bg 0 s
         else createBandSplitEchoCluster audibleHz freqHz depthVal
                (defaultEchoOptions\<lparr>centerGainScale := 0.21, echoGainScale := 0.26,
                   leftDelaySec := 0.11, rightDelaySec := 0.14, toneMix := toneMix\<rparr>) u s
         | _ \<Rightarrow> s)"

subsection \<open>Ambience channels\<close>

definition createMediaLoopSource :: "audio_state \<Rightarrow> (nat \<times> nat) \<times> audio_state" where
  \<comment> \<open>A looping \<^verbatim>\<open>Audio\<close> element (not yet playing) and the source node that reads it.\<close>
  "createMediaLoopSource s =
     (let el = length (medias s);
          s = s\<lparr>medias := medias s @ [False]\<rparr>;
          (src, s) = newNode MediaElementSource 0 s
      in ((el, src), s))"

definition motionFeed :: "nat \<Rightarrow> audio_state \<Rightarrow> audio_state" where
  \<comment> \<open>\<^verbatim>\<open>if (motionGainNode) motionGainNode.connect(pan.pan)\<close>\<close>
  "motionFeed pan s =
     (case motionGainNode s of None \<Rightarrow> s | Some mg \<Rightarrow> connect mg (ToParam pan) s)"

text \<open>Third part of \<^verbatim>\<open>startGraph\<close>: ocean, rain, birds and waves, then the Ambient Echo taps.\<close>

definition buildAmbience :: "controls \<Rightarrow> audio_state \<Rightarrow> audio_state" where
  "buildAmbience c s =
     (case masterGain s of
        None \<Rightarrow> s
      | Some master \<Rightarrow>
     (let (ocean, s) = newNode BufferSource 0 s;
          s = s\<lparr>oceanSource := Some ocean\<rparr>;
          (oceanFilter, s) = newNode BiquadFilter 600 s;
          (og, s) = newNode Gain 0 s;
          s = s\<lparr>oceanGain := Some og\<rparr>;
          s = connect ocean (ToNode oceanFilter) s;
          s = connect oceanFilter (ToNode og) s;
          (oceanPan, s) = newNode StereoPanner 0 s;
          s = motionFeed oceanPan s;
          s = connect og (ToNode oceanPan) s;
          s = connect oceanPan (ToNode master) s;
          s = s\<lparr>motionPanners := motionPanners s @ [oceanPan],
                 extraNodes := extraNodes s @ [oceanPan]\<rparr>;
          (rain, s) = newNode BufferSource 0 s;
          s = s\<lparr>rainSource := Some rain\<rparr>;
          (rainFilter, s) = newNode BiquadFilter 2000 s;
          (rg, s) = newNode Gain 0 s;
          s = s\<lparr>rainGain := Some rg\<rparr>;
          s = connect rain (ToNode rainFilter) s;
          s = connect rainFilter (ToNode rg) s;
          (rainPan, s) = newNode StereoPanner 0 s;
          s = motionFeed rainPan s;
          s = connect rg (ToNode rainPan) s;
          s = connect rainPan (ToNode master) s;
          s = s\<lparr>motionPanners := motionPanners s @ [rainPan],
                 extraNodes := extraNodes s @ [rainPan]\<rparr>;
          (bgn, s) = newNode Gain 0 s;
          s = s\<lparr>birdsGain := Some bgn\<rparr>;
          (birdsPan, s) = newNode StereoPanner 0 s;
          s = motionFeed birdsPan s;
          s = connect bgn (ToNode birdsPan) s;
          s = connect birdsPan (ToNode master) s;
          s = s\<lparr>motionPanners := motionPanners s @ [birdsPan],
                 extraNodes := extraNodes s @ [birdsPan]\<rparr>;
          s = s\<lparr>birdsIsSample := False\<rparr>;
          s = (if birdsSampleBuffer c
               then let s = s\<lparr>birdsIsSample := True\<rparr>;
                        (birds, s) = newNode BufferSource 0 s;
                        s = s\<lparr>birdsSource := Some birds\<rparr>
                    in connect birds (ToNode bgn) s
               else if mediaOk c
               then let ((el, src), s) = createMediaLoopSource s;
                        s = s\<lparr>birdsStreamEl := Some el\<rparr>;
                        s = connect src (ToNode bgn) s
                    in s\<lparr>birdsIsSample := True\<rparr>
               else s\<lparr>birdsIsSample := False\<rparr>);
          (wavesFilter, s) = newNode BiquadFilter 450 s;
          (wg, s) = newNode Gain 0 s;
          s = s\<lparr>wavesGain := Some wg\<rparr>;
          s = s\<lparr>wavesIsSample := False\<rparr>;
          s = (if wavesSampleBuffer c
               then let s = s\<lparr>wavesIsSample := True\<rparr>;
                        (waves, s) = newNode BufferSource 0 s;
                        s = s\<lparr>wavesSource := Some waves\<rparr>
                    in connect waves (ToNode wavesFilter) s
               else if mediaOk c
               then let ((el, src), s) = createMediaLoopSource s;
                        s = s\<lparr>wavesStreamEl := Some el\<rparr>;
                        s = connect src (ToNode wavesFilter) s
                    in s\<lparr>wavesIsSample := True\<rparr>
               else let s = s\<lparr>wavesIsSample := False\<rparr>;
                        (waves, s) = newNode BufferSource 0 s;
                        s = s\<lparr>wavesSource := Some waves\<rparr>
                    in connect waves (ToNode wavesFilter) s);
          s = connect wavesFilter (ToNode wg) s;
          (wavesPan, s) = newNode StereoPanner 0 s;
          s = motionFeed wavesPan s;
          s = connect wg (ToNode wavesPan) s;
          s = connect wavesPan (ToNode master) s;
          s = s\<lparr>motionPanners := motionPanners s @ [wavesPan],
                 extraNodes := extraNodes s @ [wavesPan]\<rparr>
      in if stimulationMode c = ''ambient''
         then let (leftDelay, s) = newNode Delay 0.20 s;
                  (rightDelay, s) = newNode Delay 0.25 s;
                  ambDepth = (case depthRange c of Some d \<Rightarrow> d | None \<Rightarrow> 0.7);
                  (leftGain, s) = newNode Gain (ambDepth * 0.3) s;
                  (rightGain, s) = newNode Gain (ambDepth * 0.3) s;
                  (leftPan, s) = newNode StereoPanner (- 1) s;
                  (rightPan, s) = newNode StereoPanner 1 s;
                  s = connect og (ToNode leftDelay) s;
                  s = connect og (ToNode rightDelay) s;
                  s = connect rg (ToNode leftDelay) s;
                  s = connect rg (ToNode rightDelay) s;
                  s = connect bgn (ToNode leftDelay) s;
                  s = connect bgn (ToNode rightDelay) s;
                  s = connect wg (ToNode leftDelay) s;
                  s = connect wg (ToNode rightDelay) s;
                  s = connect leftDelay (ToNode leftGain) s;
                  s = connect leftGain (ToNode leftPan) s;
                  s = connect leftPan (ToNode master) s;
                  s = connect rightDelay (ToNode rightGain) s;
                  s = connect rightGain (ToNode rightPan) s;
                  s = connect rightPan (ToNode master) s
              in s\<lparr>extraNodes := extraNodes s @
                     [leftDelay, rightDelay, leftGain, rightGain, leftPan, rightPan]\<rparr>
         else s))"

subsection \<open>Soundscape levels, chords, scope\<close>

text \<open>
  The bird chirps of \<^verbatim>\<open>runPattern\<close> are oscillators that the pattern itself schedules to
  stop 0.4 s after they begin; they are not registered anywhere and are left out.  The wave
  pattern only automates the gain of \<^verbatim>\<open>wavesGain\<close>.  What remains of both patterns is
  their interval timer.
\<close>

definition startBirdsPattern :: "real \<Rightarrow> audio_state \<Rightarrow> audio_state" where
  "startBirdsPattern level s =
     (let s = (case birdsPatternTimer s of
                 None \<Rightarrow> s
               | Some i \<Rightarrow> (clearATimer (Some i) s)\<lparr>birdsPatternTimer := None\<rparr>)
      in if \<not> audioCtx s \<or> masterGain s = None \<or> level \<le> 0 then s
         else let (h, s) = setATimer BirdsPattern s in s\<lparr>birdsPatternTimer := Some h\<rparr>)"

definition startWavesPattern :: "real \<Rightarrow> audio_state \<Rightarrow> audio_state" where
  "startWavesPattern level s =
     (let s = (case wavesPatternTimer s of
                 None \<Rightarrow> s
               | Some i \<Rightarrow> (clearATimer (Some i) s)\<lparr>wavesPatternTimer := None\<rparr>)
      in case wavesGain s of
           None \<Rightarrow> s
         | Some wg \<Rightarrow>
             if \<not> audioCtx s \<or> level \<le> 0 then setParam wg 0 s
             else let (h, s) = setATimer WavesPattern s in s\<lparr>wavesPatternTimer := Some h\<rparr>)"

definition updateSoundscapes :: "controls \<Rightarrow> audio_state \<Rightarrow> audio_state" where
  "updateSoundscapes c s =
     (let s = (case oceanGain s of None \<Rightarrow> s | Some g \<Rightarrow> setParam g (oceanVal c * 0.6) s);
          s = (case rainGain s of None \<Rightarrow> s | Some g \<Rightarrow> setParam g (rainVal c * 0.6) s);
          s = (case birdsGain s of
                 Some g \<Rightarrow>
                   if birdsIsSample s
                   then let s = setParam g (birdsVal c * 0.6) s
                        in (case birdsPatternTimer s of
                              None \<Rightarrow> s
                            | Some i \<Rightarrow> (clearATimer (Some i) s)\<lparr>birdsPatternTimer := None\<rparr>)
                   else startBirdsPattern (birdsVal c) s
               | None \<Rightarrow> startBirdsPattern (birdsVal c) s)
      in case wavesGain s of
           Some g \<Rightarrow>
             if wavesIsSample s
             then let s = setParam g (wavesVal c * 0.6) s
                  in (case wavesPatternTimer s of
                        None \<Rightarrow> s
                      | Some i \<Rightarrow> (clearATimer (Some i) s)\<lparr>wavesPatternTimer := None\<rparr>)
             else startWavesPattern (wavesVal c) (setParam g 0 s)
         | None \<Rightarrow> startWavesPattern (wavesVal c) s)"

definition chordGainValue :: "string \<Rightarrow> real" where
  "chordGainValue instrument =
     (if instrument = ''piano'' then 0.10
      else if instrument = ''harp'' then 0.10
      else if instrument = ''synth'' then 0.09
      else if instrument = ''guitar'' then 0.16
      else 0.10)"

definition chords :: "real list list" where
  "chords = [[1, 5 / 4, 3 / 2], [9 / 8, 11 / 8, 5 / 3], [4 / 3, 5 / 3, 2]]"

definition playNote :: "string \<Rightarrow> real \<Rightarrow> nat \<Rightarrow> nat \<Rightarrow> real \<Rightarrow> audio_state \<Rightarrow> audio_state" where
  "playNote instrument audibleHz chordPan master mult s =
     (let (osc, s) = newNode Oscillator (audibleHz * mult) s;
          (g, s) = newNode Gain (chordGainValue instrument) s;
          s = connect osc (ToNode g) s;
          s = connect g (ToNode chordPan) s;
          s = connect chordPan (ToNode master) s;
          s = startNode osc s
      in s\<lparr>chordOscs := chordOscs s @ [osc, g]\<rparr>)"

definition playChord :: "string \<Rightarrow> real \<Rightarrow> audio_state \<Rightarrow> audio_state" where
  "playChord instrument audibleHz s =
     (case masterGain s of
        None \<Rightarrow> s
      | Some master \<Rightarrow>
          let s = (fold stopDisconnect (chordOscs s) s)\<lparr>chordOscs := []\<rparr>;
              multipliers = chords ! (chordIndex s mod length chords);
              (chordPan, s) = newNode StereoPanner 0 s;
              s = motionFeed chordPan s;
              s = s\<lparr>motionPanners := motionPanners s @ [chordPan],
                     extraNodes := extraNodes s @ [chordPan]\<rparr>;
              s = fold (playNote instrument audibleHz chordPan master) multipliers s
          in s\<lparr>chordIndex := Suc (chordIndex s)\<rparr>)"

text \<open>
  When a pre-rendered loop is selected, \<^verbatim>\<open>startChordLoop\<close> only stops the previous loop
  before it waits for the buffer; what it does once the buffer has arrived is not part of
  the build.
\<close>

definition startChordProgression :: "controls \<Rightarrow> real \<Rightarrow> audio_state \<Rightarrow> audio_state" where
  "startChordProgression c audibleHz s =
     (let s = stopChordProgression s;
          s = stopChordBuffer s
      in if \<not> audioCtx s \<or> chordInstrument c = ''none'' then s
         else if chordLoopSelected c then stopChordBuffer s
         else let s = s\<lparr>chordIndex := 0\<rparr>;
                  s = playChord (chordInstrument c) audibleHz s;
                  (h, s) = setATimer ChordCycle s
              in s\<lparr>chordTimer := Some h\<rparr>)"

definition initScope :: "controls \<Rightarrow> audio_state \<Rightarrow> audio_state" where
  "initScope c s =
     (if \<not> scopeCanvas c then s
      else if analyser s = None then s
      else let s = clearATimer (scopeAnimId s) s;
               (h, s) = setATimer ScopeFrame s
           in s\<lparr>scopeAnimId := Some h\<rparr>)"

subsection \<open>The build\<close>

text \<open>
  \<^verbatim>\<open>birdsSource\<close> is assigned only when the birds sample is decoded, and nothing ever
  resets it: a build without the sample finds the source of an earlier build, which has
  been started already, and \<^verbatim>\<open>start()\<close> on it throws.
\<close>

definition playStreams :: "audio_state \<Rightarrow> audio_state" where
  "playStreams s =
     (let s = (case wavesStreamEl s of None \<Rightarrow> s | Some e \<Rightarrow> s\<lparr>medias := (medias s)[e := True]\<rparr>)
      in case birdsStreamEl s of None \<Rightarrow> s | Some e \<Rightarrow> s\<lparr>medias := (medias s)[e := True]\<rparr>)"

definition startSources :: "controls \<Rightarrow> audio_state \<Rightarrow> error + audio_state" where
  "startSources c s =
     (let s = (case baseOsc s of None \<Rightarrow> s | Some a \<Rightarrow> startNode a s);
          s = (case oceanSource s of None \<Rightarrow> s | Some a \<Rightarrow> startNode a s);
          s = (case rainSource s of None \<Rightarrow> s | Some a \<Rightarrow> startNode a s);
          s = (case wavesSource s of None \<Rightarrow> s | Some a \<Rightarrow> startNode a s)
      in case birdsSource s of
           Some a \<Rightarrow>
             if running (nodes s ! a) then Inl InvalidStateError
             else Inr (playStreams (startNode a s))
         | None \<Rightarrow> Inr (playStreams s))"

definition startGraph :: "controls \<Rightarrow> real \<Rightarrow> real \<Rightarrow> audio_state \<Rightarrow> error + audio_state" where
  "startGraph c freqHz u s =
     (let s = buildBus c freqHz s;
          s = buildMode c freqHz u s;
          s = buildAmbience c s
      in case startSources c s of
           Inl e \<Rightarrow> Inl e
         | Inr s \<Rightarrow>
             let s = updateSoundscapes c s;
                 s = startChordProgression c (mapBandToAudible freqHz) s
             in Inr (initScope c s))"

section \<open>Explore: start, scan, stop\<close>

record app =
  audio :: audio_state
  scan :: scan_state

definition stopAutosweep :: "scan_state \<Rightarrow> scan_state" where
  "stopAutosweep s =
     (if \<not> sweepIsRunning s then s
      else let s = s\<lparr>sweepIsRunning := False\<rparr>
           in case sweepAnimId s of
                None \<Rightarrow> s
              | Some i \<Rightarrow> (clearTimer (Some i) s)\<lparr>sweepAnimId := None\<rparr>)"

definition exploreBandHz :: "scan_state \<Rightarrow> real" where
  \<comment> \<open>\<^verbatim>\<open>parseFloat(freqSelect ? freqSelect.value : '7.83') || 7.83\<close>\<close>
  "exploreBandHz s =
     (case freqSelect s of
        None \<Rightarrow> 7.83
      | Some b \<Rightarrow> (case bandParsed b of
                    None \<Rightarrow> 7.83
                  | Some h \<Rightarrow> if h = 0 then 7.83 else h))"

definition startExplore :: "controls \<Rightarrow> real \<Rightarrow> app \<Rightarrow> error + app" where
  "startExplore c u a =
     (case startGraph c (exploreBandHz (scan a)) u (audio a) of
        Inl e \<Rightarrow> Inl e
      | Inr au \<Rightarrow> Inr (a\<lparr>audio := au\<rparr>))"

definition beginScan :: "scan_state \<Rightarrow> error + scan_state" where
  \<comment> \<open>What \<^verbatim>\<open>startTwoTierScan\<close> does to the scan globals once the engine runs.\<close>
  "beginScan s =
     (let s = s\<lparr>scanning := True, scanTier := 1, scanIndex := 0,
                 scanCounts := Map.empty, scanPhases := []\<rparr>;
          s = stopAutosweep s
      in runScanPhase s)"

definition startTwoTierScan :: "controls \<Rightarrow> real \<Rightarrow> app \<Rightarrow> error + app" where
  "startTwoTierScan c u a =
     (if scanning (scan a) then Inr a
      else case startExplore c u a of
             Inl e \<Rightarrow> Inl e
           | Inr a \<Rightarrow>
               (case beginScan (scan a) of
                  Inl e \<Rightarrow> Inl e
                | Inr sc \<Rightarrow> Inr (a\<lparr>scan := sc\<rparr>)))"

definition scanTimerFires :: "nat \<Rightarrow> scan_state \<Rightarrow> error + scan_state" where
  \<comment> \<open>The callback scheduled by \<^verbatim>\<open>runScanPhase\<close>: \<^verbatim>\<open>scanIndex++; runScanPhase();\<close>.  A timeout
      leaves the table when it fires; a cancelled one never fires.\<close>
  "scanTimerFires h s =
     (case pending s h of
        Some (ScanAdvance _) \<Rightarrow>
          runScanPhase (s\<lparr>pending := (pending s)(h := None), scanIndex := Suc (scanIndex s)\<rparr>)
      | _ \<Rightarrow> Inr s)"

definition abortScan :: "scan_state \<Rightarrow> scan_state" where
  \<comment> \<open>The \<^verbatim>\<open>if (scanning) { ... }\<close> block of \<^verbatim>\<open>stopExplore\<close>.\<close>
  "abortScan s =
     (if scanning s
      then let s = s\<lparr>scanning := False\<rparr>;
               s = clearTimer (scanTimeoutId s) s;
               s = clearTimer (countdownInterval s) s
           in s\<lparr>scanTier := 0, scanPhases := [], scanCounts := Map.empty, scanIndex := 0\<rparr>
      else s)"

definition stopExplore :: "app \<Rightarrow> app" where
  "stopExplore a =
     (let au = stopCurrentAudio (audio a);
          sc = stopAutosweep (scan a)
      in \<lparr>audio = au, scan = abortScan sc\<rparr>)"

section \<open>Reverb wet-gain compensation\<close>

text \<open>
  A sample of a decoded buffer, and the numbers computed from samples, are either a finite
  number or one of \<^verbatim>\<open>NaN\<close>, \<^verbatim>\<open>Infinity\<close>, \<^verbatim>\<open>-Infinity\<close>.  The sum of squares only adds
  non-negative terms, so a value that is not finite stays not finite.
\<close>

datatype jsnum = Num real | NonFinite

fun jadd :: "jsnum \<Rightarrow> jsnum \<Rightarrow> jsnum" where
  "jadd (Num a) (Num b) = Num (a + b)"
| "jadd _ _ = NonFinite"

fun jmul :: "jsnum \<Rightarrow> jsnum \<Rightarrow> jsnum" where
  "jmul (Num a) (Num b) = Num (a * b)"
| "jmul _ _ = NonFinite"

definition accumulate :: "jsnum \<Rightarrow> jsnum \<times> nat \<Rightarrow> jsnum \<times> nat" where
  \<comment> \<open>The body of the inner loop: \<^verbatim>\<open>sum += v * v; count++;\<close>\<close>
  "accumulate v acc = (case acc of (sum_v, count_v) \<Rightarrow> (jadd sum_v (jmul v v), count_v + 1))"

text \<open>A buffer is the list of its channels' data; \<open>None\<close> is \<^verbatim>\<open>null\<close>.\<close>

definition getAudioBufferRms :: "jsnum list list option \<Rightarrow> jsnum" where
  "getAudioBufferRms buffer =
     (case buffer of
        None \<Rightarrow> Num 0
      | Some channels \<Rightarrow>
          if length channels = 0 then Num 0
          else let (sum_v, count_v) =
                     fold (\<lambda>data acc. fold accumulate data acc) channels (Num 0, 0)
               in if count_v = 0 then Num 0
                  else (case sum_v of
                          Num a \<Rightarrow> Num (sqrt (a / real count_v))
                        | NonFinite \<Rightarrow> NonFinite))"

definition getCompensatedIrWetGain :: "string \<Rightarrow> jsnum list list option \<Rightarrow> real" where
  "getCompensatedIrWetGain name buffer =
     (let baseWet = (if name = ''temple'' then 0.42 else 0.58)
      in case getAudioBufferRms buffer of
           NonFinite \<Rightarrow> baseWet
         | Num rms \<Rightarrow>
             if rms \<le> 0 then baseWet
             else let targetRms = 0.12;
                      comp = max 0.05 (min 1.5 (targetRms / rms))
                  in max 0.03 (min 0.95 (baseWet * comp)))"

subsection \<open>The compensation as the specification words it\<close>

definition clamp :: "real \<Rightarrow> real \<Rightarrow> real \<Rightarrow> real" where
  "clamp x lo hi = (if x < lo then lo else if hi < x then hi else x)"

definition sampleValue :: "jsnum \<Rightarrow> real" where
  "sampleValue v = (case v of Num x \<Rightarrow> x | NonFinite \<Rightarrow> 0)"

definition rootMeanSquare :: "jsnum list list \<Rightarrow> jsnum" where
  \<comment> \<open>The root of the mean of the squares of all samples of all channels; not finite as
      soon as one sample is not, and 0 when there is no sample.\<close>
  "rootMeanSquare channels =
     (let samples = concat channels
      in if NonFinite \<in> set samples then NonFinite
         else if samples = [] then Num 0
         else Num (sqrt ((\<Sum>v\<leftarrow>samples. (sampleValue v)\<^sup>2) / real (length samples))))"

definition compensatedWet :: "real \<Rightarrow> jsnum \<Rightarrow> real" where
  "compensatedWet baseWet rms =
     (case rms of
        NonFinite \<Rightarrow> baseWet
      | Num r \<Rightarrow> if r = 0 then baseWet
                 else clamp (baseWet * clamp (0.12 / r) 0.05 1.5) 0.03 0.95)"

subsection \<open>User and timer events on the scan state\<close>

text \<open>
  What can happen to the scan globals: the user moves the phase slider (it is disabled
  while a scan runs), presses Mark, starts a guided scan (ignored while one is running),
  presses Stop; a scheduled callback fires; the stored history is loaded.
\<close>

datatype event = MoveSlider real | Mark | StartScan | TimerFires nat | Stop | Load

definition fire :: "event \<Rightarrow> scan_state \<Rightarrow> error + scan_state" where
  "fire e s =
     (case e of
        MoveSlider v \<Rightarrow>
          Inr (if scanning s then s
               else s\<lparr>phaseRange := map_option (\<lambda>_. v) (phaseRange s)\<rparr>)
      | Mark \<Rightarrow> Inr (handleMarkStrongest s)
      | StartScan \<Rightarrow> if scanning s then Inr s else beginScan s
      | TimerFires h \<Rightarrow> scanTimerFires h s
      | Stop \<Rightarrow> Inr (abortScan (stopAutosweep s))
      | Load \<Rightarrow> Inr (loadPhaseHistory s))"

fun run :: "event list \<Rightarrow> scan_state \<Rightarrow> error + scan_state" where
  "run [] s = Inr s"
| "run (e # es) s = (case fire e s of Inl err \<Rightarrow> Inl err | Inr s' \<Rightarrow> run es s')"

definition inRange :: "real \<Rightarrow> bool" where
  "inRange x = (0 \<le> x \<and> x \<le> 360)"

definition sliderEvent :: "event \<Rightarrow> bool" where
  \<comment> \<open>The phase slider ranges over 0 to 360 degrees.\<close>
  "sliderEvent e = (case e of MoveSlider v \<Rightarrow> inRange v | _ \<Rightarrow> True)"

definition recordsInRange :: "(string \<rightharpoonup> PhaseRecord) \<Rightarrow> bool" where
  "recordsInRange m = (\<forall>k r. m k = Some r \<longrightarrow> inRange (phase r))"

definition timersOwned :: "scan_state \<Rightarrow> bool" where
  \<comment> \<open>Every pending phase-advance timeout and countdown interval belongs to the running
      scan and is the one whose handle the program holds; handles not yet issued are free.\<close>
  "timersOwned s =
     ((\<forall>h d. pending s h = Some (ScanAdvance d) \<longrightarrow> scanning s \<and> scanTimeoutId s = Some h)
      \<and> (\<forall>h d. pending s h = Some (Countdown d) \<longrightarrow> scanning s \<and> countdownInterval s = Some h)
      \<and> (\<forall>h. nextTimer s \<le> h \<longrightarrow> pending s h = None))"

definition scanInv :: "scan_state \<Rightarrow> bool" where
  "scanInv s =
     (recordsInRange (bestPhaseByBand s) \<and> recordsInRange (stored s)
      \<and> (\<forall>v. phaseRange s = Some v \<longrightarrow> inRange v)
      \<and> (\<forall>p \<in> set (scanPhases s). inRange p)
      \<and> timersOwned s)"

definition noScanTimers :: "scan_state \<Rightarrow> bool" where
  "noScanTimers s = (\<forall>h d. pending s h \<noteq> Some (ScanAdvance d))"

text \<open>The number of marks a candidate has collected: \<^verbatim>\<open>scanCounts[i] || 0\<close>.\<close>

definition marksAt :: "scan_state \<Rightarrow> nat \<Rightarrow> nat" where
  "marksAt s i = (case scanCounts s i of None \<Rightarrow> 0 | Some c \<Rightarrow> c)"

text \<open>
  The events that can reach a running scan without the listener pressing Mark: the
  scheduled callbacks.
\<close>

definition timerEvent :: "event \<Rightarrow> bool" where
  "timerEvent e = (case e of TimerFires _ \<Rightarrow> True | _ \<Rightarrow> False)"

section \<open>Concrete states\<close>

text \<open>
  The scan globals as \<^verbatim>\<open>app.js\<close> initialises them, on a page that has its phase slider and
  band selector, with nothing in localStorage.
\<close>

definition idleScan :: scan_state where
  "idleScan =
     \<lparr>bestPhaseByBand = Map.empty, stored = Map.empty, storageOk = True,
      phaseRange = Some 0,
      freqSelect = Some \<lparr>bandValue = ''7.83'', bandParsed = Some 7.83\<rparr>,
      scanning = False, scanTier = 0, scanPhases = [], scanCounts = Map.empty,
      scanIndex = 0, scanTimeoutId = None, countdownInterval = None,
      sweepIsRunning = False, sweepAnimId = None, pending = Map.empty, nextTimer = 1\<rparr>"

text \<open>The audio globals before the engine has ever been started.\<close>

definition silentAudio :: audio_state where
  "silentAudio =
     \<lparr>audioCtx = False, nodes = [], medias = [], baseOsc = None, baseGain = None,
      masterGain = None, analyser = None, oceanSource = None, oceanGain = None,
      rainSource = None, rainGain = None, wavesSource = None, wavesGain = None,
      birdsSource = None, birdsGain = None, birdsStreamEl = None, wavesStreamEl = None,
      birdsIsSample = False, wavesIsSample = False, birdsPatternTimer = None,
      wavesPatternTimer = None, scopeAnimId = None, extraNodes = [], motionLfo = None,
      motionGainNode = None, motionPanners = [], chordOscs = [], chordTimer = None,
      chordIndex = 0, chordBufferSource = None, atimers = Map.empty, anext = 1\<rparr>"

text \<open>A listener who has marked 90 degrees once, at 7.83 Hz, in an earlier session.\<close>

definition withRecord :: scan_state where
  "withRecord = idleScan\<lparr>bestPhaseByBand := [''7.83'' \<mapsto> \<lparr>phase = 90, count = 1\<rparr>],
                         stored := [''7.83'' \<mapsto> \<lparr>phase = 90, count = 1\<rparr>]\<rparr>"

text \<open>The same listener after selecting the band at 14.3 Hz and moving the slider to 40.\<close>

definition secondBand :: scan_state where
  "secondBand = withRecord\<lparr>freqSelect := Some \<lparr>bandValue = ''14.3'', bandParsed = Some 14.3\<rparr>,
                          phaseRange := Some 40\<rparr>"

text \<open>
  The scan globals of the listener with the 7.83 Hz record inside the callback that follows
  the last Tier-2 candidate: the timeout has fired, \<^verbatim>\<open>scanIndex\<close> has been incremented to
  7 and no mark was made during the scan.
\<close>

definition tier2Last :: scan_state where
  "tier2Last = withRecord\<lparr>scanning := True, scanTier := 2,
                 scanPhases := [0, 0, 0, 0, 0, 0, 0], scanIndex := 7,
                 scanTimeoutId := Some 28, countdownInterval := Some 27,
                 pending := [27 \<mapsto> Countdown 5000], nextTimer := 29\<rparr>"

text \<open>
  A listener with a record of phase 90 and count 1 for both 7.83 Hz and 14.3 Hz runs a scan
  at 14.3 Hz and marks twice while the fourth Tier-2 candidate (index 3, at 0 degrees) is
  presented: the 14.3 Hz record becomes 45 with count 2, then 30 with count 3.  These are
  the scan globals inside the callback that follows the last Tier-2 candidate.
\<close>

definition tier2Marked :: scan_state where
  "tier2Marked =
     idleScan\<lparr>bestPhaseByBand := [''7.83'' \<mapsto> \<lparr>phase = 90, count = 1\<rparr>,
                                  ''14.3'' \<mapsto> \<lparr>phase = 30, count = 3\<rparr>],
              stored := [''7.83'' \<mapsto> \<lparr>phase = 90, count = 1\<rparr>,
                         ''14.3'' \<mapsto> \<lparr>phase = 30, count = 3\<rparr>],
              freqSelect := Some \<lparr>bandValue = ''14.3'', bandParsed = Some 14.3\<rparr>,
              scanning := True, scanTier := 2,
              scanPhases := [0, 0, 0, 0, 0, 0, 0], scanIndex := 7,
              scanCounts := [3 \<mapsto> 2], phaseRange := Some 0,
              scanTimeoutId := Some 28, countdownInterval := Some 27,
              pending := [27 \<mapsto> Countdown 5000], nextTimer := 29\<rparr>"

text \<open>
  The listener with the 7.83 Hz record in the middle of Tier 2, at candidate index 3, with
  the countdown and the phase-advance timeout pending and no mark made so far; and the
  shortest session in which a scan is started, one mark is made and Stop is pressed.
\<close>

definition midTier2 :: scan_state where
  "midTier2 = withRecord\<lparr>scanning := True, scanTier := 2,
                 scanPhases := [0, 0, 0, 0, 0, 0, 0], scanIndex := 3,
                 scanCounts := Map.empty, phaseRange := Some 0,
                 scanTimeoutId := Some 22, countdownInterval := Some 21,
                 pending := [21 \<mapsto> Countdown 5000, 22 \<mapsto> ScanAdvance 8000],
                 nextTimer := 23\<rparr>"

definition markThenStop :: "event list" where
  "markThenStop = [StartScan, Mark, Stop]"

text \<open>
  A session at the end of Tier 1, inside the callback that follows the last coarse
  candidate: three marks were made at 60 degrees and two at 120 degrees.
\<close>

definition tier1Done :: scan_state where
  "tier1Done = idleScan\<lparr>scanning := True, scanTier := 1,
                 scanPhases := [0, 60, 120, 180, 240, 300, 360], scanIndex := 7,
                 scanCounts := [1 \<mapsto> 3, 2 \<mapsto> 2], phaseRange := Some 360,
                 bestPhaseByBand := [''7.83'' \<mapsto> \<lparr>phase = 84, count = 5\<rparr>],
                 stored := [''7.83'' \<mapsto> \<lparr>phase = 84, count = 5\<rparr>],
                 scanTimeoutId := Some 14, countdownInterval := Some 13,
                 pending := [13 \<mapsto> Countdown 3000], nextTimer := 15\<rparr>"

text \<open>
  A session with no record yet, at the sixth coarse candidate (300 degrees) with its
  timeout pending; the timeout fires, which presents 360 degrees, and the listener marks.
\<close>

definition tier1Fifth :: scan_state where
  "tier1Fifth = idleScan\<lparr>scanning := True, scanTier := 1,
                 scanPhases := [0, 60, 120, 180, 240, 300, 360], scanIndex := 5,
                 phaseRange := Some 300,
                 scanTimeoutId := Some 12, countdownInterval := Some 11,
                 pending := [11 \<mapsto> Countdown 3000, 12 \<mapsto> ScanAdvance 4000],
                 nextTimer := 13\<rparr>"

definition markAtLast :: "event list" where
  "markAtLast = [TimerFires 12, Mark]"

text \<open>
  The scan globals while candidate \<open>i\<close> of tier \<open>t\<close> is presented in a scan that was started
  from \<open>s0\<close> and in which no mark has been made: the countdown interval has handle \<open>n\<close>, the
  phase-advance timeout has handle \<open>n + 1\<close>.  Tier 1 presents the coarse candidates; the
  Tier-2 candidates are all 0 (see the hand-over in \<^verbatim>\<open>runScanPhase\<close>).
\<close>

definition presenting :: "nat \<Rightarrow> nat \<Rightarrow> nat \<Rightarrow> scan_state \<Rightarrow> scan_state" where
  "presenting t n i s0 =
     (let ps = (if t = 1 then [0, 60, 120, 180, 240, 300, 360] else [0, 0, 0, 0, 0, 0, 0]);
          dwell = (if t = 1 then 3000 else 5000);
          fade = (if t = 1 then 1000 else 3000)
      in s0\<lparr>phaseRange := map_option (\<lambda>_. toFixed0 (ps ! i)) (phaseRange s0),
            scanning := True, scanTier := t, scanPhases := ps, scanCounts := Map.empty,
            scanIndex := i, scanTimeoutId := Some (Suc n), countdownInterval := Some n,
            pending := (pending s0)(n \<mapsto> Countdown dwell, Suc n \<mapsto> ScanAdvance (dwell + fade)),
            nextTimer := Suc (Suc n)\<rparr>)"

text \<open>
  The callbacks that fire from the start of a scan, in a fresh page, until the fourth Tier-2
  candidate is presented: each phase-advance timeout has the next even handle.
\<close>

definition toMidTier2 :: "event list" where
  "toMidTier2 = map TimerFires [2, 4, 6, 8, 10, 12, 14, 16, 18, 20]"

(*DEFS-END*)

section \<open>Marking: the incremental mean\<close>

lemma idleScan_fields:
  "phaseRange idleScan = Some 0"
  "bestPhaseByBand idleScan = Map.empty"
  "stored idleScan = Map.empty"
  "storageOk idleScan"
  "getExploreBandKey idleScan = ''7.83''"
  "\<not> scanning idleScan"
  by (simp_all add: idleScan_def getExploreBandKey_def)

lemma key_handleMark: "getExploreBandKey (handleMarkStrongest s) = getExploreBandKey s"
  by (simp add: handleMarkStrongest_def getExploreBandKey_def savePhaseHistory_def Let_def
           split: option.splits)

lemma best_handleMark:
  "phaseRange s = Some v \<Longrightarrow>
   bestPhaseByBand (handleMarkStrongest s) =
     (bestPhaseByBand s)(getExploreBandKey s \<mapsto>
        (case bestPhaseByBand s (getExploreBandKey s) of
           None \<Rightarrow> \<lparr>phase = v, count = 1\<rparr>
         | Some r \<Rightarrow> \<lparr>phase = phase r + (v - phase r) / (real (count r) + 1),
                      count = count r + 1\<rparr>))"
  by (simp add: handleMarkStrongest_def getExploreBandKey_def savePhaseHistory_def Let_def
        add.commute split: option.splits)

lemma stored_handleMark:
  "phaseRange s = Some v \<Longrightarrow>
   stored (handleMarkStrongest s) =
     (if storageOk s then bestPhaseByBand (handleMarkStrongest s) else stored s)"
  by (simp add: handleMarkStrongest_def getExploreBandKey_def savePhaseHistory_def Let_def
           split: option.splits)

lemma key_markAt: "getExploreBandKey (markAt v s) = getExploreBandKey s"
  by (simp add: markAt_def key_handleMark) (simp add: getExploreBandKey_def)

lemma best_markAt:
  "bestPhaseByBand (markAt v s) =
     (bestPhaseByBand s)(getExploreBandKey s \<mapsto>
        (case bestPhaseByBand s (getExploreBandKey s) of
           None \<Rightarrow> \<lparr>phase = v, count = 1\<rparr>
         | Some r \<Rightarrow> \<lparr>phase = phase r + (v - phase r) / (real (count r) + 1),
                      count = count r + 1\<rparr>))"
  by (simp add: markAt_def best_handleMark) (simp add: getExploreBandKey_def)

lemma marks_10_20_30:
  "bestPhaseByBand s (getExploreBandKey s) = None \<Longrightarrow>
   bestPhaseByBand (markAt 30 (markAt 20 (markAt 10 s))) (getExploreBandKey s) =
     Some \<lparr>phase = 20, count = 3\<rparr>"
  by (simp add: best_markAt key_markAt)

lemma key_of_band: "freqSelect s = Some b \<Longrightarrow> getExploreBandKey s = bandValue b"
  by (simp add: getExploreBandKey_def)

lemma secondBand_fields:
  "phaseRange secondBand = Some 40"
  "freqSelect secondBand = Some \<lparr>bandValue = ''14.3'', bandParsed = Some 14.3\<rparr>"
  "bestPhaseByBand secondBand ''14.3'' = None"
  "bestPhaseByBand secondBand ''7.83'' = Some \<lparr>phase = 90, count = 1\<rparr>"
  "stored secondBand ''7.83'' = Some \<lparr>phase = 90, count = 1\<rparr>"
  "storageOk secondBand"
  by (simp_all add: secondBand_def withRecord_def idleScan_def)

text \<open>
  C6.  A press of the Mark button with the phase slider at \<open>v\<close> and band \<open>b\<close> selected
  replaces the record stored under the key of \<open>b\<close> by its incremental mean with \<open>v\<close>: the
  phase becomes \<open>phase + (v - phase) / (count + 1)\<close> and the count grows by one; with no
  record yet for that band, the record becomes \<open>{phase: v, count: 1}\<close>.  The records of all
  other bands stay as they are, and the new table is what is written to storage.  Marking
  at 10, 20 and 30 from an empty record leaves phase 20 and count 3.
\<close>

theorem mark_incremental_mean:
  assumes "phaseRange s = Some v" and "freqSelect s = Some b"
  shows "bestPhaseByBand (handleMarkStrongest s) (bandValue b) =
           Some (case bestPhaseByBand s (bandValue b) of
                   None \<Rightarrow> \<lparr>phase = v, count = 1\<rparr>
                 | Some r \<Rightarrow> \<lparr>phase = phase r + (v - phase r) / (real (count r) + 1),
                              count = count r + 1\<rparr>)
         \<and> (\<forall>k. k \<noteq> bandValue b \<longrightarrow>
                bestPhaseByBand (handleMarkStrongest s) k = bestPhaseByBand s k)
         \<and> stored (handleMarkStrongest s) =
             (if storageOk s then bestPhaseByBand (handleMarkStrongest s) else stored s)
         \<and> (bestPhaseByBand s (bandValue b) = None \<longrightarrow>
              bestPhaseByBand (markAt 30 (markAt 20 (markAt 10 s))) (bandValue b) =
                Some \<lparr>phase = 20, count = 3\<rparr>)"
proof (intro conjI impI allI)
  note key = key_of_band [OF assms(2)]
  show "bestPhaseByBand (handleMarkStrongest s) (bandValue b) =
          Some (case bestPhaseByBand s (bandValue b) of
                  None \<Rightarrow> \<lparr>phase = v, count = 1\<rparr>
                | Some r \<Rightarrow> \<lparr>phase = phase r + (v - phase r) / (real (count r) + 1),
                             count = count r + 1\<rparr>)"
    by (simp add: best_handleMark [OF assms(1)] key)
  show "bestPhaseByBand (handleMarkStrongest s) k = bestPhaseByBand s k"
    if "k \<noteq> bandValue b" for k
    using that by (simp add: best_handleMark [OF assms(1)] key)
  show "stored (handleMarkStrongest s) =
          (if storageOk s then bestPhaseByBand (handleMarkStrongest s) else stored s)"
    by (rule stored_handleMark [OF assms(1)])
  show "bestPhaseByBand (markAt 30 (markAt 20 (markAt 10 s))) (bandValue b) =
          Some \<lparr>phase = 20, count = 3\<rparr>"
    if "bestPhaseByBand s (bandValue b) = None"
    using marks_10_20_30 [of s] that by (simp add: key)
qed

theorem mark_incremental_mean_witness:
  "phaseRange secondBand = Some 40
   \<and> freqSelect secondBand = Some \<lparr>bandValue = ''14.3'', bandParsed = Some 14.3\<rparr>
   \<and> bestPhaseByBand secondBand ''14.3'' = None
   \<and> bestPhaseByBand (handleMarkStrongest secondBand) ''14.3'' = Some \<lparr>phase = 40, count = 1\<rparr>
   \<and> bestPhaseByBand (handleMarkStrongest secondBand) ''7.83'' = Some \<lparr>phase = 90, count = 1\<rparr>
   \<and> stored (handleMarkStrongest secondBand) ''14.3'' = Some \<lparr>phase = 40, count = 1\<rparr>
   \<and> stored (handleMarkStrongest secondBand) ''7.83'' = Some \<lparr>phase = 90, count = 1\<rparr>
   \<and> bestPhaseByBand (markAt 30 (markAt 20 (markAt 10 secondBand))) ''14.3'' =
       Some \<lparr>phase = 20, count = 3\<rparr>"
proof -
  have ne: "''7.83'' \<noteq> bandValue \<lparr>bandValue = ''14.3'', bandParsed = Some 14.3\<rparr>"
    by simp
  from mark_incremental_mean [OF secondBand_fields(1,2)] ne
  have "bestPhaseByBand (handleMarkStrongest secondBand) ''14.3'' =
          Some \<lparr>phase = 40, count = 1\<rparr>"
    and o: "bestPhaseByBand (handleMarkStrongest secondBand) ''7.83'' =
          bestPhaseByBand secondBand ''7.83''"
    and "stored (handleMarkStrongest secondBand) = bestPhaseByBand (handleMarkStrongest secondBand)"
    and "bestPhaseByBand (markAt 30 (markAt 20 (markAt 10 secondBand))) ''14.3'' =
          Some \<lparr>phase = 20, count = 3\<rparr>"
    by (simp_all add: secondBand_fields)
  then show ?thesis by (simp add: secondBand_fields)
qed

section \<open>Reverb: the compensated wet gain\<close>

lemma accumulate_simps:
  "accumulate (Num x) (Num a, n) = (Num (a + x * x), Suc n)"
  "accumulate NonFinite (s, n) = (NonFinite, Suc n)"
  "accumulate v (NonFinite, n) = (NonFinite, Suc n)"
  by (cases s; simp add: accumulate_def)+

lemma fold_accumulate_NonFinite:
  "fold accumulate data (NonFinite, n) = (NonFinite, n + length data)"
  by (induction data arbitrary: n) (simp_all add: accumulate_simps)

lemma fold_accumulate_Num:
  "fold accumulate data (Num a, n) =
     (if NonFinite \<in> set data then NonFinite else Num (a + (\<Sum>v\<leftarrow>data. (sampleValue v)\<^sup>2)),
      n + length data)"
proof (induction data arbitrary: a n)
  case Nil
  then show ?case by simp
next
  case (Cons v data)
  show ?case
  proof (cases v)
    case (Num x)
    then show ?thesis
      using Cons.IH [of "a + x * x" "Suc n"]
      by (simp add: accumulate_simps sampleValue_def power2_eq_square add.assoc)
  next
    case NonFinite
    then show ?thesis
      by (simp add: accumulate_simps fold_accumulate_NonFinite)
  qed
qed

lemma fold_channels_NonFinite:
  "fold (fold accumulate) channels (NonFinite, n) = (NonFinite, n + length (concat channels))"
  by (induction channels arbitrary: n) (simp_all add: fold_accumulate_NonFinite)

lemma fold_channels_Num:
  "fold (fold accumulate) channels (Num a, n) =
     (if NonFinite \<in> set (concat channels) then NonFinite
      else Num (a + (\<Sum>v\<leftarrow>concat channels. (sampleValue v)\<^sup>2)),
      n + length (concat channels))"
proof (induction channels arbitrary: a n)
  case Nil
  then show ?case by simp
next
  case (Cons data channels)
  show ?case
    by (simp add: fold_accumulate_Num fold_channels_NonFinite Cons.IH add.assoc)
qed

lemma rms_refines: "getAudioBufferRms (Some channels) = rootMeanSquare channels"
proof (cases "channels = []")
  case True
  then show ?thesis by (simp add: getAudioBufferRms_def rootMeanSquare_def)
next
  case False
  then show ?thesis
    unfolding getAudioBufferRms_def rootMeanSquare_def
    by (auto simp add: fold_channels_Num Let_def)
qed

lemma sum_squares_nonneg: "0 \<le> (\<Sum>v\<leftarrow>samples. (sampleValue v)\<^sup>2)"
  by (rule sum_list_nonneg) auto

lemma rootMeanSquare_nonneg:
  assumes "rootMeanSquare channels = Num r"
  shows "0 \<le> r"
proof -
  have "0 \<le> (\<Sum>v\<leftarrow>concat channels. (sampleValue v)\<^sup>2) / real (length (concat channels))"
    by (intro divide_nonneg_nonneg sum_squares_nonneg) simp
  then have "0 \<le> sqrt ((\<Sum>v\<leftarrow>concat channels. (sampleValue v)\<^sup>2)
                      / real (length (concat channels)))"
    by (simp only: real_sqrt_ge_zero)
  with assms show ?thesis
    by (auto simp add: rootMeanSquare_def Let_def split: if_splits)
qed

lemma rms_nonneg: "getAudioBufferRms buffer = Num r \<Longrightarrow> 0 \<le> r"
proof (cases buffer)
  case None
  assume "getAudioBufferRms buffer = Num r"
  with None show ?thesis by (simp add: getAudioBufferRms_def)
next
  case (Some channels)
  assume "getAudioBufferRms buffer = Num r"
  with Some show ?thesis by (simp add: rms_refines rootMeanSquare_nonneg)
qed

lemma clamp_max_min: "lo \<le> hi \<Longrightarrow> max lo (min hi x) = clamp x lo hi"
  by (simp add: clamp_def max_def min_def)

lemma wet_refines:
  "getCompensatedIrWetGain name buffer =
     compensatedWet (if name = ''temple'' then 0.42 else 0.58) (getAudioBufferRms buffer)"
proof (cases "getAudioBufferRms buffer")
  case (Num r)
  with rms_nonneg [OF Num] show ?thesis
    by (simp add: getCompensatedIrWetGain_def compensatedWet_def Let_def clamp_max_min)
next
  case NonFinite
  then show ?thesis
    by (simp add: getCompensatedIrWetGain_def compensatedWet_def)
qed

lemma rms_single_sample: "getAudioBufferRms (Some [[Num 0.12]]) = Num 0.12"
proof -
  have "sqrt (0.12 * 0.12) = (0.12::real)" by (simp only: real_sqrt_abs2) simp
  then show ?thesis
    by (simp add: getAudioBufferRms_def accumulate_def)
qed

text \<open>
  C8.  The wet gain of a decoded impulse response is
  \<open>clamp(baseWet * clamp(0.12 / rms, 0.05, 1.5), 0.03, 0.95)\<close> with \<open>baseWet\<close> 0.42 for Temple
  and 0.58 for Forest, and \<open>baseWet\<close> itself when \<open>rms\<close> is zero or not finite; \<open>rms\<close> is the
  root mean square over all channels and samples.  Temple with \<open>rms = 0.12\<close> gives 0.42.
\<close>

theorem wet_gain_compensation:
  "getCompensatedIrWetGain ''temple'' buffer = compensatedWet 0.42 (getAudioBufferRms buffer)
   \<and> getCompensatedIrWetGain ''forest'' buffer = compensatedWet 0.58 (getAudioBufferRms buffer)
   \<and> getAudioBufferRms (Some channels) = rootMeanSquare channels
   \<and> (getAudioBufferRms buffer = Num 0.12 \<longrightarrow> getCompensatedIrWetGain ''temple'' buffer = 0.42)"
proof (intro conjI impI)
  show "getCompensatedIrWetGain ''temple'' buffer =
          compensatedWet 0.42 (getAudioBufferRms buffer)"
    by (simp add: wet_refines)
  show "getCompensatedIrWetGain ''forest'' buffer =
          compensatedWet 0.58 (getAudioBufferRms buffer)"
    by (simp add: wet_refines)
  show "getAudioBufferRms (Some channels) = rootMeanSquare channels"
    by (rule rms_refines)
  show "getCompensatedIrWetGain ''temple'' buffer = 0.42"
    if "getAudioBufferRms buffer = Num 0.12"
    using that by (simp add: wet_refines compensatedWet_def clamp_def)
qed

theorem wet_gain_compensation_witness:
  "getAudioBufferRms (Some [[Num 0.12]]) = Num 0.12
   \<and> getCompensatedIrWetGain ''temple'' (Some [[Num 0.12]]) = 0.42"
proof -
  have h: "getAudioBufferRms (Some [[Num 0.12]]) = Num 0.12"
    by (rule rms_single_sample)
  from wet_gain_compensation [of "Some [[Num 0.12]]"] h
  have "getCompensatedIrWetGain ''temple'' (Some [[Num 0.12]]) = 0.42"
    by blast
  with h show ?thesis by blast
qed

section \<open>The scan: what one step does, and what every step preserves\<close>

lemma jsmod_720: "jsmod 720 360 = 0" "jsmod 360 360 = 0"
  by (simp_all add: jsmod_def)

lemma tier2Phases_Nil: "tier2Phases [] cs = [0, 0, 0, 0, 0, 0, 0]"
  by (simp add: tier2Phases_def results_def jsmod_720 upt_rec)

lemma computePhases_fields [simp]:
  "scanning (computePhases s) = scanning s"
  "scanTier (computePhases s) = scanTier s"
  "scanIndex (computePhases s) = scanIndex s"
  "scanCounts (computePhases s) = scanCounts s"
  "bestPhaseByBand (computePhases s) = bestPhaseByBand s"
  "stored (computePhases s) = stored s"
  "storageOk (computePhases s) = storageOk s"
  "phaseRange (computePhases s) = phaseRange s"
  "freqSelect (computePhases s) = freqSelect s"
  "pending (computePhases s) = pending s"
  "nextTimer (computePhases s) = nextTimer s"
  "scanTimeoutId (computePhases s) = scanTimeoutId s"
  "countdownInterval (computePhases s) = countdownInterval s"
  by (simp_all add: computePhases_def)

lemma runScanPhase_idle: "\<not> scanning s \<Longrightarrow> runScanPhase s = Inr s"
  by (subst runScanPhase.simps) simp

lemma runScanPhase_present:
  "scanning s \<Longrightarrow> scanIndex s < length (scanPhases (computePhases s)) \<Longrightarrow>
   runScanPhase s =
     Inr (presentCandidate (if scanTier s = 1 then 3000 else 5000)
            (if scanTier s = 1 then 1000 else 3000) (computePhases s))"
  by (subst runScanPhase.simps) (simp add: Let_def)

lemma runScanPhase_complete:
  "scanning s \<Longrightarrow> length (scanPhases (computePhases s)) \<le> scanIndex s \<Longrightarrow> scanTier s \<noteq> 1 \<Longrightarrow>
   runScanPhase s = completeScan (computePhases s)"
  by (subst runScanPhase.simps) (simp add: Let_def)

lemma runScanPhase_handover:
  assumes "scanning s" "scanTier s = 1" "length (scanPhases (computePhases s)) \<le> scanIndex s"
  shows "runScanPhase s =
           Inr (presentCandidate 5000 3000
                  (s\<lparr>scanTier := 2, scanIndex := 0, scanCounts := Map.empty,
                     scanPhases := [0, 0, 0, 0, 0, 0, 0]\<rparr>))"
proof -
  let ?r = "(computePhases s)\<lparr>scanTier := 2, scanIndex := 0, scanCounts := Map.empty,
                               scanPhases := []\<rparr>"
  have r: "?r = s\<lparr>scanTier := 2, scanIndex := 0, scanCounts := Map.empty, scanPhases := []\<rparr>"
    by (simp add: computePhases_def)
  have "runScanPhase s = runScanPhase ?r"
    using assms by (subst runScanPhase.simps) (simp add: Let_def)
  also have "\<dots> = Inr (presentCandidate 5000 3000 (computePhases ?r))"
    using assms by (subst runScanPhase_present) (simp_all add: computePhases_def tier2Phases_Nil)
  also have "computePhases ?r =
               s\<lparr>scanTier := 2, scanIndex := 0, scanCounts := Map.empty,
                 scanPhases := [0, 0, 0, 0, 0, 0, 0]\<rparr>"
    by (simp add: r) (simp add: computePhases_def tier2Phases_Nil)
  finally show ?thesis .
qed


lemma toFixed0_inRange: "inRange x \<Longrightarrow> inRange (toFixed0 x)"
  unfolding inRange_def toFixed0_def by (auto; linarith)

lemma mean_inRange:
  assumes "inRange p" "inRange v"
  shows "inRange (p + (v - p) / (real n + 1))"
proof -
  have n: "0 < real n + 1" by simp
  have eq: "p + (v - p) / (real n + 1) = (real n * p + v) / (real n + 1)"
    using n by (simp add: field_simps)
  have "0 \<le> real n * p + v" using assms by (simp add: inRange_def)
  moreover have "real n * p + v \<le> 360 * (real n + 1)"
  proof -
    have "real n * p \<le> real n * 360" using assms by (simp add: inRange_def mult_left_mono)
    with assms show ?thesis by (simp add: inRange_def algebra_simps)
  qed
  ultimately show ?thesis
    unfolding eq inRange_def using n by (simp add: divide_le_eq)
qed

lemma recordsInRange_upd:
  "recordsInRange m \<Longrightarrow> inRange (phase r) \<Longrightarrow> recordsInRange (m(k \<mapsto> r))"
  by (simp add: recordsInRange_def)

lemma recordsInRange_add:
  "recordsInRange m \<Longrightarrow> recordsInRange m' \<Longrightarrow> recordsInRange (m ++ m')"
  by (auto simp: recordsInRange_def map_add_Some_iff)

lemma handleMark_fields:
  "phaseRange (handleMarkStrongest s) = phaseRange s"
  "scanPhases (handleMarkStrongest s) = scanPhases s"
  "pending (handleMarkStrongest s) = pending s"
  "nextTimer (handleMarkStrongest s) = nextTimer s"
  "scanning (handleMarkStrongest s) = scanning s"
  "scanTimeoutId (handleMarkStrongest s) = scanTimeoutId s"
  "countdownInterval (handleMarkStrongest s) = countdownInterval s"
  by (simp_all add: handleMarkStrongest_def savePhaseHistory_def Let_def split: option.splits)

lemma best_handleMark_None:
  "phaseRange s = None \<Longrightarrow> handleMarkStrongest s = s"
  by (simp add: handleMarkStrongest_def)

lemma stored_handleMark':
  "stored (handleMarkStrongest s) = stored s \<or>
   stored (handleMarkStrongest s) = bestPhaseByBand (handleMarkStrongest s)"
  by (simp add: handleMarkStrongest_def savePhaseHistory_def Let_def split: option.splits)

lemma timersOwned_cong:
  "pending s' = pending s \<Longrightarrow> nextTimer s' = nextTimer s \<Longrightarrow> scanning s' = scanning s \<Longrightarrow>
   scanTimeoutId s' = scanTimeoutId s \<Longrightarrow> countdownInterval s' = countdownInterval s \<Longrightarrow>
   timersOwned s' = timersOwned s"
  by (simp add: timersOwned_def)

lemma handleMark_inv:
  assumes "scanInv s"
  shows "scanInv (handleMarkStrongest s)"
proof (cases "phaseRange s")
  case None
  with assms show ?thesis by (simp add: best_handleMark_None)
next
  case (Some v)
  from assms Some have v: "inRange v" by (simp add: scanInv_def)
  from assms have b: "recordsInRange (bestPhaseByBand s)" by (simp add: scanInv_def)
  have new: "inRange (phase (case bestPhaseByBand s (getExploreBandKey s) of
                   None \<Rightarrow> \<lparr>phase = v, count = 1\<rparr>
                 | Some r \<Rightarrow> \<lparr>phase = phase r + (v - phase r) / (real (count r) + 1),
                              count = count r + 1\<rparr>))"
  proof (cases "bestPhaseByBand s (getExploreBandKey s)")
    case None
    with v show ?thesis by simp
  next
    case (Some r)
    with b have "inRange (phase r)" by (auto simp: recordsInRange_def)
    with Some v show ?thesis by (simp add: mean_inRange)
  qed
  have b': "recordsInRange (bestPhaseByBand (handleMarkStrongest s))"
    unfolding best_handleMark [OF Some] by (rule recordsInRange_upd [OF b new])
  have s': "recordsInRange (stored (handleMarkStrongest s))"
    using stored_handleMark' [of s] b' assms by (auto simp: scanInv_def)
  have t: "timersOwned (handleMarkStrongest s) = timersOwned s"
    by (rule timersOwned_cong) (simp_all add: handleMark_fields)
  show ?thesis
    using assms b' s' t by (simp add: scanInv_def handleMark_fields)
qed

lemma load_inv: "scanInv s \<Longrightarrow> scanInv (loadPhaseHistory s)"
  by (simp add: scanInv_def loadPhaseHistory_def recordsInRange_add timersOwned_def)

lemma stopAutosweep_fields:
  "bestPhaseByBand (stopAutosweep s) = bestPhaseByBand s"
  "stored (stopAutosweep s) = stored s"
  "phaseRange (stopAutosweep s) = phaseRange s"
  "scanPhases (stopAutosweep s) = scanPhases s"
  "scanCounts (stopAutosweep s) = scanCounts s"
  "scanIndex (stopAutosweep s) = scanIndex s"
  "scanTier (stopAutosweep s) = scanTier s"
  "nextTimer (stopAutosweep s) = nextTimer s"
  "scanning (stopAutosweep s) = scanning s"
  "scanTimeoutId (stopAutosweep s) = scanTimeoutId s"
  "countdownInterval (stopAutosweep s) = countdownInterval s"
  "freqSelect (stopAutosweep s) = freqSelect s"
  "storageOk (stopAutosweep s) = storageOk s"
  by (simp_all add: stopAutosweep_def clearTimer_def Let_def split: option.splits)

lemma stopAutosweep_pending:
  "pending (stopAutosweep s) h = None \<or> pending (stopAutosweep s) h = pending s h"
  by (simp add: stopAutosweep_def clearTimer_def Let_def split: option.splits)

lemma stopAutosweep_timers: "timersOwned s \<Longrightarrow> timersOwned (stopAutosweep s)"
  unfolding timersOwned_def stopAutosweep_fields
  using stopAutosweep_pending [of s] by (metis option.distinct(1))

lemma stopAutosweep_inv: "scanInv s \<Longrightarrow> scanInv (stopAutosweep s)"
  by (simp add: scanInv_def stopAutosweep_fields stopAutosweep_timers)

lemma abortScan_fields:
  "bestPhaseByBand (abortScan s) = bestPhaseByBand s"
  "stored (abortScan s) = stored s"
  "phaseRange (abortScan s) = phaseRange s"
  "\<not> scanning (abortScan s)"
  by (simp_all add: abortScan_def clearTimer_def Let_def split: option.splits)

lemma abortScan_cleared:
  "scanning s \<Longrightarrow>
   scanPhases (abortScan s) = [] \<and> scanCounts (abortScan s) = Map.empty
   \<and> scanIndex (abortScan s) = 0 \<and> scanTier (abortScan s) = 0"
  by (simp add: abortScan_def clearTimer_def Let_def split: option.splits)

lemma abortScan_no_timers:
  assumes "timersOwned s"
  shows "pending (abortScan s) h \<noteq> Some (ScanAdvance d)"
    and "pending (abortScan s) h \<noteq> Some (Countdown d)"
  using assms
  by (auto simp: timersOwned_def abortScan_def clearTimer_def Let_def split: option.splits)

lemma abortScan_timers: "timersOwned s \<Longrightarrow> timersOwned (abortScan s)"
  by (auto simp: timersOwned_def abortScan_def clearTimer_def Let_def split: option.splits)

lemma abortScan_phases: "set (scanPhases (abortScan s)) \<subseteq> set (scanPhases s)"
  by (simp add: abortScan_def clearTimer_def Let_def split: option.splits)

lemma abortScan_inv: "scanInv s \<Longrightarrow> scanInv (abortScan s)"
  using abortScan_phases [of s]
  by (auto simp add: scanInv_def abortScan_fields abortScan_timers)

lemma presentCandidate_eq:
  "presentCandidate dw fd s =
     s\<lparr>phaseRange := map_option (\<lambda>_. toFixed0 (scanPhases s ! scanIndex s)) (phaseRange s),
       countdownInterval := Some (nextTimer s),
       scanTimeoutId := Some (Suc (nextTimer s)),
       pending := ((case countdownInterval s of None \<Rightarrow> pending s
                    | Some i \<Rightarrow> (pending s)(i := None))
                   (nextTimer s \<mapsto> Countdown dw, Suc (nextTimer s) \<mapsto> ScanAdvance (dw + fd))),
       nextTimer := Suc (Suc (nextTimer s))\<rparr>"
proof (cases "phaseRange s")
  case None
  then show ?thesis
    by (cases "countdownInterval s")
       (simp_all add: presentCandidate_def startCountdown_def setTimer_def clearTimer_def)
next
  case (Some v)
  then show ?thesis
    by (cases "countdownInterval s")
       (simp_all add: presentCandidate_def startCountdown_def setTimer_def clearTimer_def)
qed

lemma presentCandidate_fields:
  "bestPhaseByBand (presentCandidate dw fd s) = bestPhaseByBand s"
  "stored (presentCandidate dw fd s) = stored s"
  "scanPhases (presentCandidate dw fd s) = scanPhases s"
  "scanCounts (presentCandidate dw fd s) = scanCounts s"
  "scanIndex (presentCandidate dw fd s) = scanIndex s"
  "scanTier (presentCandidate dw fd s) = scanTier s"
  "scanning (presentCandidate dw fd s) = scanning s"
  "phaseRange (presentCandidate dw fd s) =
     map_option (\<lambda>_. toFixed0 (scanPhases s ! scanIndex s)) (phaseRange s)"
  by (simp_all add: presentCandidate_eq)

lemma presentCandidate_table:
  "pending (presentCandidate dw fd s) =
     ((case countdownInterval s of None \<Rightarrow> pending s | Some i \<Rightarrow> (pending s)(i := None))
        (nextTimer s \<mapsto> Countdown dw, Suc (nextTimer s) \<mapsto> ScanAdvance (dw + fd)))"
  "nextTimer (presentCandidate dw fd s) = Suc (Suc (nextTimer s))"
  "scanTimeoutId (presentCandidate dw fd s) = Some (Suc (nextTimer s))"
  "countdownInterval (presentCandidate dw fd s) = Some (nextTimer s)"
  by (simp_all add: presentCandidate_eq)

lemma results_phase_mem:
  assumes "r \<in> set (results ps cs)"
  shows "rphase r \<in> set ps"
proof -
  from assms obtain p i where "(p, i) \<in> set (zip ps [0 ..< length ps])" "rphase r = p"
    by (auto simp: results_def)
  then show ?thesis by (auto dest: set_zip_leftD)
qed


lemma results_length: "length (results ps cs) = length ps"
  by (simp add: results_def)


lemma best_mem:
  assumes "ps \<noteq> []"
  shows "rphase (hd (results ps cs)) \<in> set ps"
proof -
  have "length (results ps cs) \<noteq> 0" using assms by (simp add: results_length)
  then have "results ps cs \<noteq> []" by (simp only: length_0_conv not_False_eq_True)
  then have "hd (results ps cs) \<in> set (results ps cs)" by (rule hd_in_set)
  then show ?thesis by (rule results_phase_mem)
qed

lemma completeScan_eq:
  assumes "scanPhases s \<noteq> []"
  shows "completeScan s =
     Inr (s\<lparr>bestPhaseByBand := (bestPhaseByBand s)(getExploreBandKey s \<mapsto>
              \<lparr>phase = rphase (hd (results (scanPhases s) (scanCounts s))),
               count = (case bestPhaseByBand s (getExploreBandKey s) of
                          None \<Rightarrow> 1 | Some current \<Rightarrow> count current)\<rparr>),
            stored := (if storageOk s
                       then (bestPhaseByBand s)(getExploreBandKey s \<mapsto>
                              \<lparr>phase = rphase (hd (results (scanPhases s) (scanCounts s))),
                               count = (case bestPhaseByBand s (getExploreBandKey s) of
                                          None \<Rightarrow> 1 | Some current \<Rightarrow> count current)\<rparr>)
                       else stored s),
            phaseRange := map_option
              (\<lambda>_. toFixed0 (rphase (hd (results (scanPhases s) (scanCounts s))))) (phaseRange s),
            scanning := False, scanTier := 0, scanPhases := [], scanCounts := Map.empty,
            scanIndex := 0,
            pending := (case countdownInterval s of None \<Rightarrow> pending s
                        | Some i \<Rightarrow> (pending s)(i := None))\<rparr>)"
proof -
  from assms obtain p ps where ps: "scanPhases s = p # ps" by (cases "scanPhases s") auto
  have key: "getExploreBandKey (x\<lparr>bestPhaseByBand := b\<rparr>) = getExploreBandKey x" for x b
    by (simp add: getExploreBandKey_def)
  show ?thesis
    by (cases "bestPhaseByBand s (getExploreBandKey s)"; cases "storageOk s";
        cases "phaseRange s"; cases "countdownInterval s")
       (simp_all add: completeScan_def ps savePhaseHistory_def clearTimer_def Let_def key)
qed

lemma completeScan_Inr:
  assumes "scanPhases s \<noteq> []"
  shows "\<exists>s'. completeScan s = Inr s'
     \<and> bestPhaseByBand s' = (bestPhaseByBand s)(getExploreBandKey s \<mapsto>
          \<lparr>phase = rphase (hd (results (scanPhases s) (scanCounts s))),
           count = (case bestPhaseByBand s (getExploreBandKey s) of
                      None \<Rightarrow> 1 | Some current \<Rightarrow> count current)\<rparr>)
     \<and> stored s' = (if storageOk s then bestPhaseByBand s' else stored s)
     \<and> phaseRange s' = map_option
          (\<lambda>_. toFixed0 (rphase (hd (results (scanPhases s) (scanCounts s))))) (phaseRange s)
     \<and> \<not> scanning s' \<and> scanTier s' = 0 \<and> scanPhases s' = [] \<and> scanCounts s' = Map.empty
     \<and> scanIndex s' = 0
     \<and> pending s' = (case countdownInterval s of None \<Rightarrow> pending s
                      | Some i \<Rightarrow> (pending s)(i := None))
     \<and> nextTimer s' = nextTimer s"
  unfolding completeScan_eq [OF assms] by simp

lemma presentCandidate_timers:
  assumes "timersOwned s" "noScanTimers s" "scanning s"
  shows "timersOwned (presentCandidate dw fd s)"
proof -
  have a: "pending s h = Some (Countdown d) \<Longrightarrow> countdownInterval s = Some h" for h d
    using assms(1) by (simp add: timersOwned_def)
  have b: "pending s h \<noteq> Some (ScanAdvance d)" for h d
    using assms(2) by (simp add: noScanTimers_def)
  have c: "nextTimer s \<le> h \<Longrightarrow> pending s h = None" for h
    using assms(1) by (simp add: timersOwned_def)
  let ?P = "(case countdownInterval s of None \<Rightarrow> pending s | Some i \<Rightarrow> (pending s)(i := None))"
  have P: "?P h = None \<or> ?P h = pending s h" for h
    by (simp split: option.splits)
  have Pc: "?P h \<noteq> Some (Countdown d)" for h d
    using a [of h d] by (auto split: option.splits if_splits)
  have Pa: "?P h \<noteq> Some (ScanAdvance d)" for h d
    using b [of h d] P [of h] by auto
  have Pn: "nextTimer s \<le> h \<Longrightarrow> ?P h = None" for h
    using c [of h] P [of h] by auto
  show ?thesis
    unfolding timersOwned_def presentCandidate_table presentCandidate_fields
    using Pc Pa Pn assms(3) by (auto simp: fun_upd_def)
qed

lemma presentCandidate_inv:
  assumes "scanInv s" "noScanTimers s" "scanning s" "scanIndex s < length (scanPhases s)"
  shows "scanInv (presentCandidate dw fd s)"
proof -
  from assms have "inRange (scanPhases s ! scanIndex s)" by (simp add: scanInv_def)
  then have "inRange (toFixed0 (scanPhases s ! scanIndex s))" by (rule toFixed0_inRange)
  moreover have "timersOwned (presentCandidate dw fd s)"
    using assms by (intro presentCandidate_timers) (simp_all add: scanInv_def)
  ultimately show ?thesis
    using assms by (auto simp add: scanInv_def presentCandidate_fields)
qed

lemma completeScan_inv:
  assumes "scanInv s" "noScanTimers s" "completeScan s = Inr s'"
  shows "scanInv s'"
proof -
  have ne: "scanPhases s \<noteq> []"
    using assms(3) by (auto simp: completeScan_def)
  from completeScan_Inr [OF ne] assms(3)
  have b: "bestPhaseByBand s' = (bestPhaseByBand s)(getExploreBandKey s \<mapsto>
          \<lparr>phase = rphase (hd (results (scanPhases s) (scanCounts s))),
           count = (case bestPhaseByBand s (getExploreBandKey s) of
                      None \<Rightarrow> 1 | Some current \<Rightarrow> count current)\<rparr>)"
    and st: "stored s' = (if storageOk s then bestPhaseByBand s' else stored s)"
    and ph: "phaseRange s' = map_option
          (\<lambda>_. toFixed0 (rphase (hd (results (scanPhases s) (scanCounts s))))) (phaseRange s)"
    and sc: "\<not> scanning s'" "scanPhases s' = []"
    and pe: "pending s' = (case countdownInterval s of None \<Rightarrow> pending s
                      | Some i \<Rightarrow> (pending s)(i := None))"
    and nx: "nextTimer s' = nextTimer s"
    by auto
  have best: "inRange (rphase (hd (results (scanPhases s) (scanCounts s))))"
    using best_mem [OF ne] assms(1) by (auto simp: scanInv_def)
  have rb: "recordsInRange (bestPhaseByBand s')"
    unfolding b using assms(1) best by (intro recordsInRange_upd) (simp_all add: scanInv_def)
  have rs: "recordsInRange (stored s')"
    unfolding st using rb assms(1) by (simp add: scanInv_def)
  have a: "pending s h = Some (Countdown d) \<Longrightarrow> countdownInterval s = Some h" for h d
    using assms(1) by (simp add: scanInv_def timersOwned_def)
  have bb: "pending s h \<noteq> Some (ScanAdvance d)" for h d
    using assms(2) by (simp add: noScanTimers_def)
  have c: "nextTimer s \<le> h \<Longrightarrow> pending s h = None" for h
    using assms(1) by (simp add: scanInv_def timersOwned_def)
  have P: "pending s' h = None \<or> pending s' h = pending s h" for h
    unfolding pe by (simp split: option.splits)
  have Pc: "pending s' h \<noteq> Some (Countdown d)" for h d
    unfolding pe using a [of h d] by (auto split: option.splits if_splits)
  have Pa: "pending s' h \<noteq> Some (ScanAdvance d)" for h d
    using bb [of h d] P [of h] by auto
  have Pn: "nextTimer s' \<le> h \<Longrightarrow> pending s' h = None" for h
    using c [of h] P [of h] nx by auto
  have t: "timersOwned s'"
    unfolding timersOwned_def using Pc Pa Pn by simp
  show ?thesis
    using rb rs t best sc ph by (auto simp: scanInv_def toFixed0_inRange)
qed

lemma scanInv_phases_cong:
  assumes "scanInv s" "\<forall>p \<in> set ps. inRange p"
  shows "scanInv (s\<lparr>scanPhases := ps\<rparr>)"
  using assms by (simp add: scanInv_def timersOwned_def)

lemma computePhases_unchanged:
  "\<not> (scanIndex s = 0 \<and> scanPhases s = []) \<Longrightarrow> computePhases s = s"
  by (auto simp add: computePhases_def)

lemma computePhases_first:
  "scanIndex s = 0 \<Longrightarrow> scanPhases s = [] \<Longrightarrow>
   computePhases s =
     (if scanTier s = 1 then s\<lparr>scanPhases := [0, 60, 120, 180, 240, 300, 360]\<rparr>
      else if scanTier s = 2 then s\<lparr>scanPhases := [0, 0, 0, 0, 0, 0, 0]\<rparr>
      else s)"
  by (simp add: computePhases_def tier2Phases_Nil)

lemma computePhases_inv:
  assumes "scanInv s"
  shows "scanInv (computePhases s)"
proof (cases "scanIndex s = 0 \<and> scanPhases s = []")
  case False
  then have "computePhases s = s" by (rule computePhases_unchanged)
  with assms show ?thesis by simp
next
  case True
  have 1: "scanInv (s\<lparr>scanPhases := [0, 60, 120, 180, 240, 300, 360]\<rparr>)"
    by (rule scanInv_phases_cong [OF assms]) (simp add: inRange_def)
  have 2: "scanInv (s\<lparr>scanPhases := [0, 0, 0, 0, 0, 0, 0]\<rparr>)"
    by (rule scanInv_phases_cong [OF assms]) (simp add: inRange_def)
  from True have "computePhases s =
     (if scanTier s = 1 then s\<lparr>scanPhases := [0, 60, 120, 180, 240, 300, 360]\<rparr>
      else if scanTier s = 2 then s\<lparr>scanPhases := [0, 0, 0, 0, 0, 0, 0]\<rparr>
      else s)"
    by (intro computePhases_first) simp_all
  with 1 2 assms show ?thesis by simp
qed

lemma computePhases_noScanTimers [simp]: "noScanTimers (computePhases s) = noScanTimers s"
  by (simp add: noScanTimers_def)

lemma handover_state_inv:
  assumes "scanInv s"
  shows "scanInv (s\<lparr>scanTier := 2, scanIndex := 0, scanCounts := Map.empty,
                    scanPhases := [0, 0, 0, 0, 0, 0, 0]\<rparr>)"
  using assms by (simp add: scanInv_def timersOwned_def inRange_def)

lemma runScanPhase_inv_present:
  assumes "scanInv s" "noScanTimers s" "scanning s"
    "scanIndex s < length (scanPhases (computePhases s))"
  shows "scanInv (presentCandidate dw fd (computePhases s))"
proof (rule presentCandidate_inv)
  show "scanInv (computePhases s)" by (rule computePhases_inv [OF assms(1)])
  show "noScanTimers (computePhases s)" using assms(2) by (simp only: computePhases_noScanTimers)
  show "scanning (computePhases s)" using assms(3) by (simp only: computePhases_fields)
  show "scanIndex (computePhases s) < length (scanPhases (computePhases s))"
    using assms(4) by (simp only: computePhases_fields)
qed

lemma runScanPhase_inv_handover:
  assumes "scanInv s" "noScanTimers s" "scanning s"
  shows "scanInv (presentCandidate 5000 3000
                  (s\<lparr>scanTier := 2, scanIndex := 0, scanCounts := Map.empty,
                     scanPhases := [0, 0, 0, 0, 0, 0, 0]\<rparr>))"
proof (rule presentCandidate_inv)
  show "scanInv (s\<lparr>scanTier := 2, scanIndex := 0, scanCounts := Map.empty,
                     scanPhases := [0, 0, 0, 0, 0, 0, 0]\<rparr>)"
    by (rule handover_state_inv [OF assms(1)])
  show "noScanTimers (s\<lparr>scanTier := 2, scanIndex := 0, scanCounts := Map.empty,
                     scanPhases := [0, 0, 0, 0, 0, 0, 0]\<rparr>)"
    using assms(2) by (simp add: noScanTimers_def)
  show "scanning (s\<lparr>scanTier := 2, scanIndex := 0, scanCounts := Map.empty,
                     scanPhases := [0, 0, 0, 0, 0, 0, 0]\<rparr>)"
    using assms(3) by simp
  show "scanIndex (s\<lparr>scanTier := 2, scanIndex := 0, scanCounts := Map.empty,
                     scanPhases := [0, 0, 0, 0, 0, 0, 0]\<rparr>)
        < length (scanPhases (s\<lparr>scanTier := 2, scanIndex := 0, scanCounts := Map.empty,
                     scanPhases := [0, 0, 0, 0, 0, 0, 0]\<rparr>))"
    by simp
qed

lemma runScanPhase_inv:
  assumes "scanInv s" "noScanTimers s" "runScanPhase s = Inr s'"
  shows "scanInv s'"
proof (cases "scanning s")
  case False
  with assms(3) have "s' = s" by (simp add: runScanPhase_idle)
  with assms(1) show ?thesis by simp
next
  case True
  show ?thesis
  proof (cases "scanIndex s < length (scanPhases (computePhases s))")
    case True
    with \<open>scanning s\<close> assms(3)
    have "s' = presentCandidate (if scanTier s = 1 then 3000 else 5000)
            (if scanTier s = 1 then 1000 else 3000) (computePhases s)"
      by (simp add: runScanPhase_present)
    then show ?thesis
      using runScanPhase_inv_present [OF assms(1,2) \<open>scanning s\<close> True] by simp
  next
    case False
    then have le: "length (scanPhases (computePhases s)) \<le> scanIndex s" by simp
    show ?thesis
    proof (cases "scanTier s = 1")
      case True
      from runScanPhase_handover [OF \<open>scanning s\<close> True le] assms(3)
      have "s' = presentCandidate 5000 3000
                  (s\<lparr>scanTier := 2, scanIndex := 0, scanCounts := Map.empty,
                     scanPhases := [0, 0, 0, 0, 0, 0, 0]\<rparr>)" by simp
      then show ?thesis
        using runScanPhase_inv_handover [OF assms(1,2) \<open>scanning s\<close>] by simp
    next
      case False
      from runScanPhase_complete [OF \<open>scanning s\<close> le False] assms(3)
      have c: "completeScan (computePhases s) = Inr s'" by simp
      have n: "noScanTimers (computePhases s)"
        using assms(2) by (simp only: computePhases_noScanTimers)
      show ?thesis
        by (rule completeScan_inv [OF computePhases_inv [OF assms(1)] n c])
    qed
  qed
qed

lemma scanTimerFires_inv:
  assumes "scanInv s" "scanTimerFires h s = Inr s'"
  shows "scanInv s'"
proof (cases "\<exists>d. pending s h = Some (ScanAdvance d)")
  case False
  then have "scanTimerFires h s = Inr s"
    by (cases "pending s h"; cases "the (pending s h)") (simp_all add: scanTimerFires_def)
  with assms show ?thesis by simp
next
  case True
  then obtain d where d: "pending s h = Some (ScanAdvance d)" by blast
  let ?s = "s\<lparr>pending := (pending s)(h := None), scanIndex := Suc (scanIndex s)\<rparr>"
  from d assms(2) have r: "runScanPhase ?s = Inr s'"
    by (simp add: scanTimerFires_def)
  from d assms(1) have own: "scanTimeoutId s = Some h"
    by (simp add: scanInv_def timersOwned_def)
  have adv: "pending s k = Some (ScanAdvance e) \<Longrightarrow> k = h" for k e
    using assms(1) own by (auto simp add: scanInv_def timersOwned_def)
  have n: "noScanTimers ?s"
    unfolding noScanTimers_def using adv by auto
  have t: "timersOwned ?s"
    using assms(1) unfolding scanInv_def timersOwned_def by simp
  have i: "scanInv ?s"
    using assms(1) t by (simp add: scanInv_def)
  show ?thesis by (rule runScanPhase_inv [OF i n r])
qed

lemma beginScan_inv:
  assumes "scanInv s" "\<not> scanning s" "beginScan s = Inr s'"
  shows "scanInv s'"
proof -
  let ?s = "s\<lparr>scanning := True, scanTier := 1, scanIndex := 0,
                scanCounts := Map.empty, scanPhases := []\<rparr>"
  have none: "pending s h \<noteq> Some (ScanAdvance d)" "pending s h \<noteq> Some (Countdown d)" for h d
    using assms(1,2) by (auto simp: scanInv_def timersOwned_def)
  have t: "timersOwned ?s"
    using assms(1) none by (simp add: scanInv_def timersOwned_def)
  have i: "scanInv ?s"
    using assms(1) t by (simp add: scanInv_def)
  have n: "noScanTimers ?s"
    using none by (simp add: noScanTimers_def)
  have i': "scanInv (stopAutosweep ?s)" by (rule stopAutosweep_inv [OF i])
  have n': "noScanTimers (stopAutosweep ?s)"
    unfolding noScanTimers_def
  proof (intro allI)
    fix h d
    from stopAutosweep_pending [of ?s h] n
    show "pending (stopAutosweep ?s) h \<noteq> Some (ScanAdvance d)"
      by (auto simp: noScanTimers_def)
  qed
  from assms(3) have "runScanPhase (stopAutosweep ?s) = Inr s'"
    by (simp add: beginScan_def Let_def)
  then show ?thesis by (rule runScanPhase_inv [OF i' n'])
qed

lemma moveSlider_inv:
  assumes "scanInv s" "inRange v"
  shows "scanInv (s\<lparr>phaseRange := map_option (\<lambda>_. v) (phaseRange s)\<rparr>)"
proof -
  have "timersOwned (s\<lparr>phaseRange := map_option (\<lambda>_. v) (phaseRange s)\<rparr>)"
    using assms(1) by (simp add: scanInv_def timersOwned_def)
  then show ?thesis using assms by (auto simp: scanInv_def)
qed

lemma fire_inv:
  assumes "scanInv s" "sliderEvent e" "fire e s = Inr s'"
  shows "scanInv s'"
proof (cases e)
  case (MoveSlider v)
  with assms(2) have v: "inRange v" by (simp add: sliderEvent_def)
  from MoveSlider assms(3)
  have "s' = (if scanning s then s else s\<lparr>phaseRange := map_option (\<lambda>_. v) (phaseRange s)\<rparr>)"
    by (simp add: fire_def)
  with assms(1) moveSlider_inv [OF assms(1) v] show ?thesis by simp
next
  case Mark
  with assms(3) have "s' = handleMarkStrongest s" by (simp add: fire_def)
  with handleMark_inv [OF assms(1)] show ?thesis by simp
next
  case StartScan
  show ?thesis
  proof (cases "scanning s")
    case True
    with StartScan assms(3) have "s' = s" by (simp add: fire_def)
    with assms(1) show ?thesis by simp
  next
    case False
    with StartScan assms(3) have "beginScan s = Inr s'" by (simp add: fire_def)
    then show ?thesis by (rule beginScan_inv [OF assms(1) False])
  qed
next
  case (TimerFires h)
  with assms(3) have "scanTimerFires h s = Inr s'" by (simp add: fire_def)
  then show ?thesis by (rule scanTimerFires_inv [OF assms(1)])
next
  case Stop
  with assms(3) have "s' = abortScan (stopAutosweep s)" by (simp add: fire_def)
  with abortScan_inv [OF stopAutosweep_inv [OF assms(1)]] show ?thesis by simp
next
  case Load
  with assms(3) have "s' = loadPhaseHistory s" by (simp add: fire_def)
  with load_inv [OF assms(1)] show ?thesis by simp
qed

lemma run_inv:
  "scanInv s \<Longrightarrow> \<forall>e \<in> set es. sliderEvent e \<Longrightarrow> run es s = Inr s' \<Longrightarrow> scanInv s'"
proof (induction es arbitrary: s)
  case Nil
  then show ?case by simp
next
  case (Cons e es)
  from Cons.prems(3) obtain s1 where f: "fire e s = Inr s1" and r: "run es s1 = Inr s'"
    by (auto split: sum.splits)
  from Cons.prems(2) have e: "sliderEvent e" and es: "\<forall>e \<in> set es. sliderEvent e" by simp_all
  have "scanInv s1" by (rule fire_inv [OF Cons.prems(1) e f])
  then show ?case using es r by (rule Cons.IH)
qed

lemma idleScan_inv: "scanInv idleScan"
  by (simp add: scanInv_def idleScan_def recordsInRange_def timersOwned_def inRange_def)

section \<open>Scan completion\<close>

lemma hd_insort_key:
  "hd (insort_key f x ys) = (if ys = [] \<or> f x \<le> f (hd ys) then x else hd ys)"
  by (cases ys) simp_all

lemma sort_key_Nil_iff: "sort_key f xs = [] \<longleftrightarrow> xs = []"
  by (metis length_sort length_0_conv)

lemma hd_sort_key_first_min:
  "xs \<noteq> [] \<Longrightarrow>
   \<exists>i < length xs. hd (sort_key f xs) = xs ! i
      \<and> (\<forall>j < length xs. f (xs ! i) \<le> f (xs ! j)) \<and> (\<forall>j < i. f (xs ! i) < f (xs ! j))"
proof (induction xs)
  case Nil
  then show ?case by simp
next
  case (Cons x xs)
  show ?case
  proof (cases "xs = []")
    case True
    then show ?thesis by simp
  next
    case False
    from Cons.IH [OF False] obtain i where i: "i < length xs"
      and h: "hd (sort_key f xs) = xs ! i"
      and m: "\<forall>j < length xs. f (xs ! i) \<le> f (xs ! j)"
      and l: "\<forall>j < i. f (xs ! i) < f (xs ! j)" by blast
    have hd: "hd (sort_key f (x # xs)) = (if f x \<le> f (xs ! i) then x else xs ! i)"
      using False h by (simp add: hd_insort_key sort_key_Nil_iff)
    show ?thesis
    proof (cases "f x \<le> f (xs ! i)")
      case True
      have "\<forall>j < length (x # xs). f ((x # xs) ! 0) \<le> f ((x # xs) ! j)"
      proof (intro allI impI)
        fix j assume "j < length (x # xs)"
        then show "f ((x # xs) ! 0) \<le> f ((x # xs) ! j)"
          using True m by (cases j) (auto intro: order_trans)
      qed
      with True hd show ?thesis by (intro exI [of _ 0]) simp
    next
      case False
      have a: "\<forall>j < length (x # xs). f ((x # xs) ! Suc i) \<le> f ((x # xs) ! j)"
      proof (intro allI impI)
        fix j assume "j < length (x # xs)"
        then show "f ((x # xs) ! Suc i) \<le> f ((x # xs) ! j)"
          using False m by (cases j) auto
      qed
      have b: "\<forall>j < Suc i. f ((x # xs) ! Suc i) < f ((x # xs) ! j)"
      proof (intro allI impI)
        fix j assume "j < Suc i"
        then show "f ((x # xs) ! Suc i) < f ((x # xs) ! j)"
          using False l by (cases j) auto
      qed
      from False hd i a b show ?thesis by (intro exI [of _ "Suc i"]) simp
    qed
  qed
qed

lemma best_is_first_max:
  assumes "ps \<noteq> []"
  shows "\<exists>i < length ps. rphase (hd (results ps cs)) = ps ! i
      \<and> (\<forall>j < length ps. (case cs j of None \<Rightarrow> 0 | Some c \<Rightarrow> c)
                              \<le> (case cs i of None \<Rightarrow> 0 | Some c \<Rightarrow> c))
      \<and> (\<forall>j < i. (case cs j of None \<Rightarrow> 0 | Some c \<Rightarrow> c)
                     < (case cs i of None \<Rightarrow> 0 | Some c \<Rightarrow> c))"
proof -
  let ?g = "\<lambda>(p, i). \<lparr>rphase = p, rcount = (case cs i of None \<Rightarrow> 0 | Some c \<Rightarrow> c)\<rparr>"
  let ?xs = "map ?g (zip ps [0 ..< length ps])"
  let ?f = "\<lambda>r. - int (rcount r)"
  have ne: "?xs \<noteq> []" using assms by simp
  have nth: "?xs ! j = \<lparr>rphase = ps ! j, rcount = (case cs j of None \<Rightarrow> 0 | Some c \<Rightarrow> c)\<rparr>"
    if "j < length ps" for j using that by simp
  from hd_sort_key_first_min [OF ne, of ?f] obtain i where i: "i < length ps"
    and h: "hd (sort_key ?f ?xs) = ?xs ! i"
    and m: "\<forall>j < length ps. ?f (?xs ! i) \<le> ?f (?xs ! j)"
    and l: "\<forall>j < i. ?f (?xs ! i) < ?f (?xs ! j)" by auto
  have 1: "rphase (hd (results ps cs)) = ps ! i"
    unfolding results_def h using nth [OF i] by simp
  have 2: "(case cs j of None \<Rightarrow> 0 | Some c \<Rightarrow> c) \<le> (case cs i of None \<Rightarrow> 0 | Some c \<Rightarrow> c)"
    if "j < length ps" for j
    using m that nth [OF i] nth [OF that] by simp
  have 3: "(case cs j of None \<Rightarrow> 0 | Some c \<Rightarrow> c) < (case cs i of None \<Rightarrow> 0 | Some c \<Rightarrow> c)"
    if "j < i" for j
  proof -
    from that i have jl: "j < length ps" by simp
    from l that have "?f (?xs ! i) < ?f (?xs ! j)" by blast
    then show ?thesis unfolding nth [OF i] nth [OF jl] by simp
  qed
  from i 1 2 3 show ?thesis by blast
qed

text \<open>
  C1, as the code has it.  When the last Tier-2 candidate has been presented, with band
  \<open>b\<close> selected, the candidate with the most marks, the first of them in presentation order
  among equals, becomes the phase of the record stored under the key of \<open>b\<close>: the earlier
  phase is replaced, not averaged in, and the record keeps its mark count (1 when there was
  no record).  The records of all other bands stay as they are.  The table is saved, the
  transient scan data is cleared and the phase slider receives \<^verbatim>\<open>best.toFixed(0)\<close>, which is
  the elicited value itself when the candidates are whole degrees.
\<close>

theorem scan_completion_overwrites:
  assumes "scanning s" "scanTier s = 2" "scanPhases s \<noteq> []"
    and "length (scanPhases s) \<le> scanIndex s"
    and "freqSelect s = Some b"
  shows "\<exists>s' i. runScanPhase s = Inr s' \<and> i < length (scanPhases s)
     \<and> (\<forall>j < length (scanPhases s). marksAt s j \<le> marksAt s i)
     \<and> (\<forall>j < i. marksAt s j < marksAt s i)
     \<and> bestPhaseByBand s' (bandValue b) =
         Some \<lparr>phase = scanPhases s ! i,
               count = (case bestPhaseByBand s (bandValue b) of
                          None \<Rightarrow> 1 | Some current \<Rightarrow> count current)\<rparr>
     \<and> (\<forall>k. k \<noteq> bandValue b \<longrightarrow> bestPhaseByBand s' k = bestPhaseByBand s k)
     \<and> stored s' = (if storageOk s then bestPhaseByBand s' else stored s)
     \<and> phaseRange s' = map_option (\<lambda>_. toFixed0 (scanPhases s ! i)) (phaseRange s)
     \<and> ((\<forall>p \<in> set (scanPhases s). toFixed0 p = p) \<longrightarrow>
          phaseRange s' = map_option (\<lambda>_. scanPhases s ! i) (phaseRange s))
     \<and> \<not> scanning s' \<and> scanPhases s' = [] \<and> scanCounts s' = Map.empty \<and> scanIndex s' = 0"
proof -
  note key = key_of_band [OF assms(5)]
  have c: "computePhases s = s"
    using assms(3) by (intro computePhases_unchanged) simp
  have r: "runScanPhase s = completeScan s"
    using runScanPhase_complete [of s] assms(1-4) c by simp
  from best_is_first_max [OF assms(3), of "scanCounts s"]
  obtain i where i: "i < length (scanPhases s)"
    and b: "rphase (hd (results (scanPhases s) (scanCounts s))) = scanPhases s ! i"
    and m: "\<forall>j < length (scanPhases s). marksAt s j \<le> marksAt s i"
    and l: "\<forall>j < i. marksAt s j < marksAt s i"
    unfolding marksAt_def by blast
  from completeScan_Inr [OF assms(3)] obtain s' where s': "completeScan s = Inr s'"
    and f: "bestPhaseByBand s' = (bestPhaseByBand s)(getExploreBandKey s \<mapsto>
          \<lparr>phase = rphase (hd (results (scanPhases s) (scanCounts s))),
           count = (case bestPhaseByBand s (getExploreBandKey s) of
                      None \<Rightarrow> 1 | Some current \<Rightarrow> count current)\<rparr>)"
      "stored s' = (if storageOk s then bestPhaseByBand s' else stored s)"
      "phaseRange s' = map_option
          (\<lambda>_. toFixed0 (rphase (hd (results (scanPhases s) (scanCounts s))))) (phaseRange s)"
      "\<not> scanning s'" "scanPhases s' = []" "scanCounts s' = Map.empty" "scanIndex s' = 0"
    by blast
  have whole: "phaseRange s' = map_option (\<lambda>_. scanPhases s ! i) (phaseRange s)"
    if "\<forall>p \<in> set (scanPhases s). toFixed0 p = p"
  proof -
    from that i have "toFixed0 (scanPhases s ! i) = scanPhases s ! i" by simp
    with f(3) b show ?thesis by simp
  qed
  have rec: "bestPhaseByBand s' (bandValue b) =
         Some \<lparr>phase = scanPhases s ! i,
               count = (case bestPhaseByBand s (bandValue b) of
                          None \<Rightarrow> 1 | Some current \<Rightarrow> count current)\<rparr>"
    by (simp add: f(1) b key)
  have others: "\<forall>k. k \<noteq> bandValue b \<longrightarrow> bestPhaseByBand s' k = bestPhaseByBand s k"
    by (simp add: f(1) key)
  have ph: "phaseRange s' = map_option (\<lambda>_. toFixed0 (scanPhases s ! i)) (phaseRange s)"
    using f(3) b by simp
  have "runScanPhase s = Inr s' \<and> i < length (scanPhases s)
     \<and> (\<forall>j < length (scanPhases s). marksAt s j \<le> marksAt s i)
     \<and> (\<forall>j < i. marksAt s j < marksAt s i)
     \<and> bestPhaseByBand s' (bandValue b) =
         Some \<lparr>phase = scanPhases s ! i,
               count = (case bestPhaseByBand s (bandValue b) of
                          None \<Rightarrow> 1 | Some current \<Rightarrow> count current)\<rparr>
     \<and> (\<forall>k. k \<noteq> bandValue b \<longrightarrow> bestPhaseByBand s' k = bestPhaseByBand s k)
     \<and> stored s' = (if storageOk s then bestPhaseByBand s' else stored s)
     \<and> phaseRange s' = map_option (\<lambda>_. toFixed0 (scanPhases s ! i)) (phaseRange s)
     \<and> ((\<forall>p \<in> set (scanPhases s). toFixed0 p = p) \<longrightarrow>
          phaseRange s' = map_option (\<lambda>_. scanPhases s ! i) (phaseRange s))
     \<and> \<not> scanning s' \<and> scanPhases s' = [] \<and> scanCounts s' = Map.empty \<and> scanIndex s' = 0"
    using r s' i m l rec others f(2) ph whole f(4-) by (intro conjI impI) simp_all
  then show ?thesis by blast
qed

lemma tier2Last_fields:
  "scanning tier2Last" "scanTier tier2Last = 2" "scanPhases tier2Last = [0, 0, 0, 0, 0, 0, 0]"
  "scanIndex tier2Last = 7" "getExploreBandKey tier2Last = ''7.83''"
  "bestPhaseByBand tier2Last ''7.83'' = Some \<lparr>phase = 90, count = 1\<rparr>"
  "storageOk tier2Last" "phaseRange tier2Last = Some 0"
  by (simp_all add: tier2Last_def withRecord_def idleScan_def getExploreBandKey_def)

lemma tier2Marked_fields:
  "scanning tier2Marked" "scanTier tier2Marked = 2"
  "scanPhases tier2Marked = [0, 0, 0, 0, 0, 0, 0]" "scanIndex tier2Marked = 7"
  "freqSelect tier2Marked = Some \<lparr>bandValue = ''14.3'', bandParsed = Some 14.3\<rparr>"
  "bestPhaseByBand tier2Marked ''14.3'' = Some \<lparr>phase = 30, count = 3\<rparr>"
  "bestPhaseByBand tier2Marked ''7.83'' = Some \<lparr>phase = 90, count = 1\<rparr>"
  "storageOk tier2Marked" "phaseRange tier2Marked = Some 0"
  "marksAt tier2Marked 3 = 2"
  by (simp_all add: tier2Marked_def idleScan_def marksAt_def)

theorem scan_completion_overwrites_witness:
  "scanning tier2Marked \<and> scanTier tier2Marked = 2 \<and> scanPhases tier2Marked \<noteq> []
   \<and> length (scanPhases tier2Marked) \<le> scanIndex tier2Marked
   \<and> freqSelect tier2Marked = Some \<lparr>bandValue = ''14.3'', bandParsed = Some 14.3\<rparr>
   \<and> marksAt tier2Marked 3 = 2
   \<and> bestPhaseByBand tier2Marked ''14.3'' = Some \<lparr>phase = 30, count = 3\<rparr>
   \<and> (\<exists>s'. runScanPhase tier2Marked = Inr s'
        \<and> bestPhaseByBand s' ''14.3'' = Some \<lparr>phase = 0, count = 3\<rparr>
        \<and> bestPhaseByBand s' ''7.83'' = Some \<lparr>phase = 90, count = 1\<rparr>
        \<and> stored s' ''14.3'' = Some \<lparr>phase = 0, count = 3\<rparr>
        \<and> stored s' ''7.83'' = Some \<lparr>phase = 90, count = 1\<rparr>
        \<and> phaseRange s' = Some 0 \<and> \<not> scanning s' \<and> scanPhases s' = [])"
proof -
  have z: "[0, 0, 0, 0, 0, 0, 0::real] ! i = 0" if "i < length [0, 0, 0, 0, 0, 0, 0::real]" for i
    using that by (auto simp: nth_Cons' )
  have h: "scanning tier2Marked" "scanTier tier2Marked = 2" "scanPhases tier2Marked \<noteq> []"
    "length (scanPhases tier2Marked) \<le> scanIndex tier2Marked"
    "freqSelect tier2Marked = Some \<lparr>bandValue = ''14.3'', bandParsed = Some 14.3\<rparr>"
    by (simp_all add: tier2Marked_fields)
  have ne: "''7.83'' \<noteq> bandValue \<lparr>bandValue = ''14.3'', bandParsed = Some 14.3\<rparr>"
    by simp
  from scan_completion_overwrites [OF h]
  obtain s' i where r: "runScanPhase tier2Marked = Inr s'"
    and i: "i < length (scanPhases tier2Marked)"
    and b: "bestPhaseByBand s' (bandValue \<lparr>bandValue = ''14.3'', bandParsed = Some 14.3\<rparr>) =
         Some \<lparr>phase = scanPhases tier2Marked ! i,
               count = (case bestPhaseByBand tier2Marked
                               (bandValue \<lparr>bandValue = ''14.3'', bandParsed = Some 14.3\<rparr>) of
                          None \<Rightarrow> 1 | Some current \<Rightarrow> count current)\<rparr>"
    and o: "\<forall>k. k \<noteq> bandValue \<lparr>bandValue = ''14.3'', bandParsed = Some 14.3\<rparr> \<longrightarrow>
                bestPhaseByBand s' k = bestPhaseByBand tier2Marked k"
    and st: "stored s' = (if storageOk tier2Marked then bestPhaseByBand s' else stored tier2Marked)"
    and ph: "phaseRange s' =
         map_option (\<lambda>_. toFixed0 (scanPhases tier2Marked ! i)) (phaseRange tier2Marked)"
    and sc: "\<not> scanning s'" "scanPhases s' = []"
    by blast
  from i have p: "scanPhases tier2Marked ! i = 0"
    by (simp add: tier2Marked_fields z)
  have t0: "toFixed0 0 = 0" by (simp add: toFixed0_def)
  from o ne have o': "bestPhaseByBand s' ''7.83'' = bestPhaseByBand tier2Marked ''7.83''"
    by blast
  from b st ph o' have
    "bestPhaseByBand s' ''14.3'' = Some \<lparr>phase = 0, count = 3\<rparr>"
    "bestPhaseByBand s' ''7.83'' = Some \<lparr>phase = 90, count = 1\<rparr>"
    "stored s' ''14.3'' = Some \<lparr>phase = 0, count = 3\<rparr>"
    "stored s' ''7.83'' = Some \<lparr>phase = 90, count = 1\<rparr>"
    "phaseRange s' = Some 0"
    unfolding p by (simp_all add: tier2Marked_fields t0)
  with r sc h tier2Marked_fields(6,10) show ?thesis by blast
qed

lemma tier2Last_best: "rphase (hd (results (scanPhases tier2Last) (scanCounts tier2Last))) = 0"
proof -
  have ne: "scanPhases tier2Last \<noteq> []" by (simp add: tier2Last_fields)
  from best_is_first_max [OF ne] obtain i where "i < length (scanPhases tier2Last)"
    "rphase (hd (results (scanPhases tier2Last) (scanCounts tier2Last))) = scanPhases tier2Last ! i"
    by blast
  then show ?thesis by (auto simp: tier2Last_fields nth_Cons')
qed

text \<open>
  The claim as stated fails: with a stored record of phase 90 and count 1, a scan that
  elicits 0 leaves phase 0, where the incremental mean would leave 45.
\<close>

theorem scan_completion_overwrites_counterexample:
  "(case runScanPhase tier2Last of Inr s' \<Rightarrow> bestPhaseByBand s' ''7.83'' | Inl _ \<Rightarrow> None)
     = Some \<lparr>phase = 0, count = 1\<rparr>
   \<and> bestPhaseByBand tier2Last ''7.83'' = Some \<lparr>phase = 90, count = 1\<rparr>
   \<and> (0::real) \<noteq> 90 + (0 - 90) / (1 + 1)"
proof -
  have c: "computePhases tier2Last = tier2Last"
    by (intro computePhases_unchanged) (simp add: tier2Last_fields)
  have r: "runScanPhase tier2Last = completeScan tier2Last"
    using runScanPhase_complete [of tier2Last] c by (simp add: tier2Last_fields)
  have ne: "scanPhases tier2Last \<noteq> []" by (simp add: tier2Last_fields)
  from completeScan_Inr [OF ne] obtain s' where s': "completeScan tier2Last = Inr s'"
    and b: "bestPhaseByBand s' = (bestPhaseByBand tier2Last)(getExploreBandKey tier2Last \<mapsto>
          \<lparr>phase = rphase (hd (results (scanPhases tier2Last) (scanCounts tier2Last))),
           count = (case bestPhaseByBand tier2Last (getExploreBandKey tier2Last) of
                      None \<Rightarrow> 1 | Some current \<Rightarrow> count current)\<rparr>)"
    by blast
  have "bestPhaseByBand s' ''7.83'' = Some \<lparr>phase = 0, count = 1\<rparr>"
    unfolding b tier2Last_best by (simp add: tier2Last_fields)
  then show ?thesis
    unfolding r s' by (simp add: tier2Last_fields)
qed

section \<open>Stopping a scan\<close>

lemmas eval_scan =
  fire_def beginScan_def scanTimerFires_def stopAutosweep_def abortScan_def
  handleMarkStrongest_def savePhaseHistory_def getExploreBandKey_def
  runScanPhase_idle runScanPhase_present runScanPhase_complete runScanPhase_handover
  computePhases_def presentCandidate_eq clearTimer_def Let_def
  toFixed0_def

lemma scan_stopExplore: "scan (stopExplore a) = abortScan (stopAutosweep (scan a))"
  by (simp add: stopExplore_def Let_def)

text \<open>What leaves the records alone: every scan step that does not complete the scan.\<close>

lemma runScanPhase_tables:
  assumes "runScanPhase s = Inr s'" "scanning s'"
  shows "bestPhaseByBand s' = bestPhaseByBand s \<and> stored s' = stored s"
proof (cases "scanning s")
  case False
  with assms(1) show ?thesis by (simp add: runScanPhase_idle)
next
  case True
  show ?thesis
  proof (cases "scanIndex s < length (scanPhases (computePhases s))")
    case True
    with \<open>scanning s\<close> assms(1)
    have "s' = presentCandidate (if scanTier s = 1 then 3000 else 5000)
            (if scanTier s = 1 then 1000 else 3000) (computePhases s)"
      by (simp add: runScanPhase_present)
    then show ?thesis by (simp add: presentCandidate_fields)
  next
    case False
    then have le: "length (scanPhases (computePhases s)) \<le> scanIndex s" by simp
    show ?thesis
    proof (cases "scanTier s = 1")
      case True
      from runScanPhase_handover [OF \<open>scanning s\<close> True le] assms(1)
      have "s' = presentCandidate 5000 3000
                  (s\<lparr>scanTier := 2, scanIndex := 0, scanCounts := Map.empty,
                     scanPhases := [0, 0, 0, 0, 0, 0, 0]\<rparr>)" by simp
      then show ?thesis by (simp add: presentCandidate_fields)
    next
      case False
      from runScanPhase_complete [OF \<open>scanning s\<close> le False] assms(1)
      have c: "completeScan (computePhases s) = Inr s'" by simp
      then have ne: "scanPhases (computePhases s) \<noteq> []"
        by (auto simp: completeScan_def)
      from completeScan_Inr [OF ne] c have "\<not> scanning s'" by auto
      with assms(2) show ?thesis by simp
    qed
  qed
qed

lemma scanTimerFires_tables:
  assumes "scanTimerFires h s = Inr s'" "scanning s'"
  shows "bestPhaseByBand s' = bestPhaseByBand s \<and> stored s' = stored s"
proof (cases "\<exists>d. pending s h = Some (ScanAdvance d)")
  case False
  then have "scanTimerFires h s = Inr s"
    by (cases "pending s h"; cases "the (pending s h)") (simp_all add: scanTimerFires_def)
  with assms show ?thesis by simp
next
  case True
  then obtain d where d: "pending s h = Some (ScanAdvance d)" by blast
  let ?s = "s\<lparr>pending := (pending s)(h := None), scanIndex := Suc (scanIndex s)\<rparr>"
  from d assms(1) have r: "runScanPhase ?s = Inr s'"
    by (simp add: scanTimerFires_def)
  from runScanPhase_tables [OF r assms(2)] show ?thesis by simp
qed

lemma scanTimerFires_idle:
  assumes "timersOwned s" "\<not> scanning s"
  shows "scanTimerFires h s = Inr s"
proof -
  from assms have "pending s h \<noteq> Some (ScanAdvance d)" for d
    by (auto simp: timersOwned_def)
  then show ?thesis
    by (cases "pending s h"; cases "the (pending s h)") (simp_all add: scanTimerFires_def)
qed

lemma timers_idle:
  "timersOwned s \<Longrightarrow> \<not> scanning s \<Longrightarrow> \<forall>e \<in> set es. timerEvent e \<Longrightarrow> run es s = Inr s"
proof (induction es)
  case Nil
  then show ?case by simp
next
  case (Cons e es)
  from Cons.prems(3) obtain h where e: "e = TimerFires h"
    by (cases e) (auto simp: timerEvent_def)
  have "fire e s = Inr s"
    unfolding e using scanTimerFires_idle [OF Cons.prems(1,2)] by (simp add: fire_def)
  with Cons show ?case by simp
qed

lemma timers_keep_tables:
  "scanInv s \<Longrightarrow> \<forall>e \<in> set es. timerEvent e \<Longrightarrow> run es s = Inr s' \<Longrightarrow> scanning s' \<Longrightarrow>
   bestPhaseByBand s' = bestPhaseByBand s \<and> stored s' = stored s"
proof (induction es arbitrary: s)
  case Nil
  then show ?case by simp
next
  case (Cons e es)
  from Cons.prems(2) obtain h where e: "e = TimerFires h"
    by (cases e) (auto simp: timerEvent_def)
  from Cons.prems(2) have es: "\<forall>e \<in> set es. timerEvent e" by simp
  from Cons.prems(3) obtain s1 where f: "fire e s = Inr s1" and r: "run es s1 = Inr s'"
    by (auto split: sum.splits)
  have se: "sliderEvent e" by (simp add: e sliderEvent_def)
  have i1: "scanInv s1" by (rule fire_inv [OF Cons.prems(1) se f])
  have sc1: "scanning s1"
  proof (rule ccontr)
    assume n: "\<not> scanning s1"
    from i1 have "timersOwned s1" by (simp add: scanInv_def)
    from timers_idle [OF this n es] r have "s' = s1" by simp
    with n Cons.prems(4) show False by simp
  qed
  from f have "scanTimerFires h s = Inr s1" by (simp add: e fire_def)
  from scanTimerFires_tables [OF this sc1] Cons.IH [OF i1 es r Cons.prems(4)]
  show ?case by simp
qed

lemma beginScan_tables:
  assumes "beginScan s = Inr s'"
  shows "scanning s' \<and> bestPhaseByBand s' = bestPhaseByBand s \<and> stored s' = stored s"
proof -
  define s2 where "s2 = stopAutosweep (s\<lparr>scanning := True, scanTier := 1, scanIndex := 0,
                scanCounts := Map.empty, scanPhases := []\<rparr>)"
  have f: "scanning s2" "scanIndex s2 = 0" "scanPhases s2 = []" "scanTier s2 = 1"
    "bestPhaseByBand s2 = bestPhaseByBand s" "stored s2 = stored s"
    by (simp_all add: s2_def stopAutosweep_fields)
  have c: "computePhases s2 = s2\<lparr>scanPhases := [0, 60, 120, 180, 240, 300, 360]\<rparr>"
    using computePhases_first [OF f(2,3)] f(4) by simp
  have lt: "scanIndex s2 < length (scanPhases (computePhases s2))"
    unfolding c f(2) by simp
  from assms have "runScanPhase s2 = Inr s'" by (simp add: beginScan_def Let_def s2_def)
  with runScanPhase_present [OF f(1) lt]
  have "s' = presentCandidate (if scanTier s2 = 1 then 3000 else 5000)
            (if scanTier s2 = 1 then 1000 else 3000) (computePhases s2)" by simp
  then show ?thesis
    by (simp add: presentCandidate_fields f)
qed

text \<open>
  C2, as the code has it.  A guided scan is started from an idle state and runs through any
  number of callbacks and marks; it is still running (for instance in the middle of Tier 2)
  when Stop is pressed.  Stop discards the transient scan data, cancels the pending
  phase-advance timeout and the countdown, and changes no record, in memory or in storage.
  If no mark was made during the scan, every record is exactly what it was before the scan
  started.  (A mark made during the scan was merged and saved when it was made, and stays.)
\<close>

theorem stop_discards_scan:
  assumes "scanInv s" and "\<not> scanning s"
    and "\<forall>e \<in> set es. timerEvent e \<or> e = Mark"
    and "run (StartScan # es) s = Inr s1" and "scanning s1"
  shows "bestPhaseByBand (scan (stopExplore \<lparr>audio = au, scan = s1\<rparr>)) = bestPhaseByBand s1
     \<and> stored (scan (stopExplore \<lparr>audio = au, scan = s1\<rparr>)) = stored s1
     \<and> (Mark \<notin> set es \<longrightarrow>
          bestPhaseByBand (scan (stopExplore \<lparr>audio = au, scan = s1\<rparr>)) = bestPhaseByBand s
          \<and> stored (scan (stopExplore \<lparr>audio = au, scan = s1\<rparr>)) = stored s)
     \<and> \<not> scanning (scan (stopExplore \<lparr>audio = au, scan = s1\<rparr>))
     \<and> scanPhases (scan (stopExplore \<lparr>audio = au, scan = s1\<rparr>)) = []
     \<and> scanCounts (scan (stopExplore \<lparr>audio = au, scan = s1\<rparr>)) = Map.empty
     \<and> scanIndex (scan (stopExplore \<lparr>audio = au, scan = s1\<rparr>)) = 0
     \<and> (\<forall>h d. pending (scan (stopExplore \<lparr>audio = au, scan = s1\<rparr>)) h \<noteq> Some (ScanAdvance d))
     \<and> (\<forall>h d. pending (scan (stopExplore \<lparr>audio = au, scan = s1\<rparr>)) h \<noteq> Some (Countdown d))"
proof -
  let ?a = "stopAutosweep s1"
  have ev: "\<forall>e \<in> set (StartScan # es). sliderEvent e"
    using assms(3) by (auto simp: sliderEvent_def timerEvent_def split: event.splits)
  have i1: "scanInv s1" by (rule run_inv [OF assms(1) ev assms(4)])
  then have t1: "timersOwned s1" by (simp add: scanInv_def)
  have sc: "scanning ?a" using assms(5) by (simp add: stopAutosweep_fields)
  have t: "timersOwned ?a" by (rule stopAutosweep_timers [OF t1])
  have frame: "bestPhaseByBand (abortScan ?a) = bestPhaseByBand s1"
    "stored (abortScan ?a) = stored s1"
    by (simp_all add: abortScan_fields stopAutosweep_fields)
  have pre: "bestPhaseByBand s1 = bestPhaseByBand s \<and> stored s1 = stored s" if "Mark \<notin> set es"
  proof -
    from that assms(3) have tm: "\<forall>e \<in> set es. timerEvent e" by auto
    from assms(2,4) obtain s0 where b: "beginScan s = Inr s0" and r: "run es s0 = Inr s1"
      by (auto simp: fire_def split: sum.splits)
    have "sliderEvent StartScan" by (simp add: sliderEvent_def)
    moreover from assms(2) b have "fire StartScan s = Inr s0" by (simp add: fire_def)
    ultimately have i0: "scanInv s0" by (rule fire_inv [OF assms(1)])
    from timers_keep_tables [OF i0 tm r assms(5)] beginScan_tables [OF b]
    show ?thesis by simp
  qed
  show ?thesis
    unfolding scan_stopExplore
    using abortScan_cleared [OF sc] abortScan_no_timers [OF t] frame pre
    by (simp add: abortScan_fields)
qed

text \<open>
  The run that reaches the middle of Tier 2: started from the listener with the 7.83 Hz
  record, the scan presents the seven coarse candidates, hands over and presents the Tier-2
  candidates; after ten callbacks it is at candidate index 3 of Tier 2.
\<close>

lemma begin_presenting:
  assumes "\<not> sweepIsRunning s0" "countdownInterval s0 = None"
  shows "beginScan s0 = Inr (presenting 1 (nextTimer s0) 0 s0)"
proof -
  define s2 where "s2 = s0\<lparr>scanning := True, scanTier := 1, scanIndex := 0,
                scanCounts := Map.empty, scanPhases := []\<rparr>"
  have sw: "stopAutosweep s2 = s2" using assms(1) by (simp add: stopAutosweep_def s2_def)
  have f: "scanning s2" "scanIndex s2 = 0" "scanPhases s2 = []" "scanTier s2 = 1"
    by (simp_all add: s2_def)
  have c: "computePhases s2 = s2\<lparr>scanPhases := [0, 60, 120, 180, 240, 300, 360]\<rparr>"
    using computePhases_first [OF f(2,3)] f(4) by simp
  have lt: "scanIndex s2 < length (scanPhases (computePhases s2))"
    unfolding c f(2) by simp
  have "beginScan s0 = runScanPhase (stopAutosweep s2)"
    unfolding beginScan_def Let_def s2_def ..
  also have "\<dots> = runScanPhase s2" by (simp only: sw)
  also have "\<dots> = Inr (presentCandidate 3000 1000 (s2\<lparr>scanPhases := [0, 60, 120, 180, 240, 300, 360]\<rparr>))"
    using runScanPhase_present [OF f(1) lt] by (simp add: f c)
  also have "presentCandidate 3000 1000 (s2\<lparr>scanPhases := [0, 60, 120, 180, 240, 300, 360]\<rparr>)
               = presenting 1 (nextTimer s0) 0 s0"
    using assms(2) by (simp add: presentCandidate_eq presenting_def s2_def Let_def)
  finally show ?thesis .
qed

lemma presenting_eq:
  "presenting t n i s0 =
     s0\<lparr>phaseRange := map_option (\<lambda>_. toFixed0
            ((if t = 1 then [0, 60, 120, 180, 240, 300, 360] else [0, 0, 0, 0, 0, 0, 0]) ! i))
            (phaseRange s0),
        scanning := True, scanTier := t,
        scanPhases := (if t = 1 then [0, 60, 120, 180, 240, 300, 360] else [0, 0, 0, 0, 0, 0, 0]),
        scanCounts := Map.empty, scanIndex := i,
        scanTimeoutId := Some (Suc n), countdownInterval := Some n,
        pending := (pending s0)(n \<mapsto> Countdown (if t = 1 then 3000 else 5000),
                                 Suc n \<mapsto> ScanAdvance ((if t = 1 then 3000 else 5000)
                                                         + (if t = 1 then 1000 else 3000))),
        nextTimer := Suc (Suc n)\<rparr>"
  by (simp add: presenting_def Let_def)

lemma present_after_presenting:
  assumes "pending s0 n = None" "pending s0 (Suc n) = None"
  shows "presentCandidate (if t = 1 then 3000 else 5000) (if t = 1 then 1000 else 3000)
           ((presenting t n i s0)\<lparr>pending := (pending (presenting t n i s0))(Suc n := None),
                                  scanIndex := Suc i\<rparr>)
         = presenting t (Suc (Suc n)) (Suc i) s0"
proof -
  have p0: "(pending s0)(Suc n := None) = pending s0" "(pending s0)(n := None) = pending s0"
    using assms by (auto simp: fun_eq_iff)
  show ?thesis
    unfolding presentCandidate_eq presenting_eq
    by (rule scan_state.equality) (simp_all add: p0 option.map_comp comp_def)
qed

lemma advance_presenting:
  assumes "pending s0 n = None" "pending s0 (Suc n) = None" "Suc i < 7"
  shows "scanTimerFires (Suc n) (presenting t n i s0) =
           Inr (presenting t (Suc (Suc n)) (Suc i) s0)"
proof -
  define s1 where "s1 = (presenting t n i s0)\<lparr>pending := (pending (presenting t n i s0))(Suc n := None),
                            scanIndex := Suc i\<rparr>"
  have f: "scanning s1" "scanIndex s1 = Suc i" "length (scanPhases s1) = 7" "scanTier s1 = t"
    by (simp_all add: s1_def presenting_eq)
  have c: "computePhases s1 = s1"
    by (rule computePhases_unchanged) (simp add: f)
  have lt: "scanIndex s1 < length (scanPhases (computePhases s1))"
    unfolding c f using assms(3) by simp
  have "scanTimerFires (Suc n) (presenting t n i s0) = runScanPhase s1"
    by (simp add: scanTimerFires_def presenting_eq s1_def)
  also have "\<dots> = Inr (presentCandidate (if t = 1 then 3000 else 5000)
                           (if t = 1 then 1000 else 3000) s1)"
    using runScanPhase_present [OF f(1) lt] unfolding c f(4) .
  also have "presentCandidate (if t = 1 then 3000 else 5000) (if t = 1 then 1000 else 3000) s1
               = presenting t (Suc (Suc n)) (Suc i) s0"
    unfolding s1_def by (rule present_after_presenting [OF assms(1,2)])
  finally show ?thesis .
qed


lemma handover_presenting:
  assumes "pending s0 n = None" "pending s0 (Suc n) = None"
  shows "scanTimerFires (Suc n) (presenting 1 n 6 s0) = Inr (presenting 2 (Suc (Suc n)) 0 s0)"
proof -
  define s1 where "s1 = (presenting 1 n 6 s0)\<lparr>pending := (pending (presenting 1 n 6 s0))(Suc n := None),
                            scanIndex := Suc 6\<rparr>"
  have f: "scanning s1" "scanIndex s1 = 7" "length (scanPhases s1) = 7" "scanTier s1 = 1"
    by (simp_all add: s1_def presenting_eq)
  have c: "computePhases s1 = s1"
    by (rule computePhases_unchanged) (simp add: f)
  have le: "length (scanPhases (computePhases s1)) \<le> scanIndex s1"
    unfolding c f by simp
  have p0: "(pending s0)(Suc n := None) = pending s0" "(pending s0)(n := None) = pending s0"
    using assms by (auto simp: fun_eq_iff)
  have "scanTimerFires (Suc n) (presenting 1 n 6 s0) = runScanPhase s1"
    by (simp add: scanTimerFires_def presenting_eq s1_def)
  also have "\<dots> = Inr (presentCandidate 5000 3000
                  (s1\<lparr>scanTier := 2, scanIndex := 0, scanCounts := Map.empty,
                     scanPhases := [0, 0, 0, 0, 0, 0, 0]\<rparr>))"
    by (rule runScanPhase_handover [OF f(1,4) le])
  also have "presentCandidate 5000 3000
                  (s1\<lparr>scanTier := 2, scanIndex := 0, scanCounts := Map.empty,
                     scanPhases := [0, 0, 0, 0, 0, 0, 0]\<rparr>)
             = presenting 2 (Suc (Suc n)) 0 s0"
    unfolding presentCandidate_eq s1_def presenting_eq
    by (rule scan_state.equality) (simp_all add: p0 option.map_comp comp_def toFixed0_def)
  finally show ?thesis .
qed

lemma midTier2_presenting: "presenting 2 21 3 withRecord = midTier2"
  unfolding presenting_eq midTier2_def
  by (rule scan_state.equality) (simp_all add: withRecord_def idleScan_def toFixed0_def)

lemma withRecord_fresh: "pending withRecord h = None" "nextTimer withRecord = 1"
  "\<not> sweepIsRunning withRecord" "countdownInterval withRecord = None"
  "\<not> scanning withRecord"
  by (simp_all add: withRecord_def idleScan_def)

lemma withRecord_inv: "scanInv withRecord"
  by (simp add: scanInv_def withRecord_def idleScan_def recordsInRange_def timersOwned_def
        inRange_def)

lemma toMidTier2_run: "run (StartScan # toMidTier2) withRecord = Inr midTier2"
proof -
  note adv = advance_presenting [OF withRecord_fresh(1) withRecord_fresh(1), of _ _ _]
  have n: "Suc (Suc 0) = 2" "Suc 2 = 3" "Suc 3 = 4" "Suc 4 = 5" "Suc 5 = 6" "Suc 6 = 7"
    "Suc 7 = 8" "Suc 8 = 9" "Suc 9 = 10" "Suc 10 = 11" "Suc 11 = 12" "Suc 12 = 13"
    "Suc 13 = 14" "Suc 14 = 15" "Suc 15 = 16" "Suc 16 = 17" "Suc 17 = 18" "Suc 18 = 19"
    "Suc 19 = 20" "Suc 20 = 21"
    by simp_all
  have s0: "fire StartScan withRecord = Inr (presenting 1 1 0 withRecord)"
    using begin_presenting [OF withRecord_fresh(3,4)]
    by (simp add: fire_def withRecord_fresh)
  have a1: "fire (TimerFires 2) (presenting 1 1 0 withRecord) = Inr (presenting 1 3 1 withRecord)"
    using adv [of 0 1 1] by (simp add: fire_def n)
  have a2: "fire (TimerFires 4) (presenting 1 3 1 withRecord) = Inr (presenting 1 5 2 withRecord)"
    using adv [of 1 3 1] by (simp add: fire_def n)
  have a3: "fire (TimerFires 6) (presenting 1 5 2 withRecord) = Inr (presenting 1 7 3 withRecord)"
    using adv [of 2 5 1] by (simp add: fire_def n)
  have a4: "fire (TimerFires 8) (presenting 1 7 3 withRecord) = Inr (presenting 1 9 4 withRecord)"
    using adv [of 3 7 1] by (simp add: fire_def n)
  have a5: "fire (TimerFires 10) (presenting 1 9 4 withRecord) = Inr (presenting 1 11 5 withRecord)"
    using adv [of 4 9 1] by (simp add: fire_def n)
  have a6: "fire (TimerFires 12) (presenting 1 11 5 withRecord) = Inr (presenting 1 13 6 withRecord)"
    using adv [of 5 11 1] by (simp add: fire_def n)
  have a7: "fire (TimerFires 14) (presenting 1 13 6 withRecord) = Inr (presenting 2 15 0 withRecord)"
    using handover_presenting [OF withRecord_fresh(1) withRecord_fresh(1), of 13]
    by (simp add: fire_def n)
  have a8: "fire (TimerFires 16) (presenting 2 15 0 withRecord) = Inr (presenting 2 17 1 withRecord)"
    using adv [of 0 15 2] by (simp add: fire_def n)
  have a9: "fire (TimerFires 18) (presenting 2 17 1 withRecord) = Inr (presenting 2 19 2 withRecord)"
    using adv [of 1 17 2] by (simp add: fire_def n)
  have a10: "fire (TimerFires 20) (presenting 2 19 2 withRecord) = Inr (presenting 2 21 3 withRecord)"
    using adv [of 2 19 2] by (simp add: fire_def n)
  show ?thesis
    unfolding toMidTier2_def
    by (simp only: run.simps list.map s0 a1 a2 a3 a4 a5 a6 a7 a8 a9 a10 sum.case midTier2_presenting)
qed

lemma midTier2_fields:
  "scanning midTier2" "stored midTier2 ''7.83'' = Some \<lparr>phase = 90, count = 1\<rparr>"
  "bestPhaseByBand midTier2 ''7.83'' = Some \<lparr>phase = 90, count = 1\<rparr>"
  "scanIndex midTier2 = 3" "scanTier midTier2 = 2"
  "pending midTier2 22 = Some (ScanAdvance 8000)"
  by (simp_all add: midTier2_def withRecord_def idleScan_def)

lemma toMidTier2_events: "\<forall>e \<in> set toMidTier2. timerEvent e \<or> e = Mark" "Mark \<notin> set toMidTier2"
  by (simp_all add: toMidTier2_def timerEvent_def)

theorem stop_discards_scan_witness:
  "scanInv withRecord \<and> \<not> scanning withRecord
   \<and> bestPhaseByBand withRecord ''7.83'' = Some \<lparr>phase = 90, count = 1\<rparr>
   \<and> stored withRecord ''7.83'' = Some \<lparr>phase = 90, count = 1\<rparr>
   \<and> Mark \<notin> set toMidTier2
   \<and> run (StartScan # toMidTier2) withRecord = Inr midTier2
   \<and> scanning midTier2 \<and> scanTier midTier2 = 2 \<and> scanIndex midTier2 = 3
   \<and> pending midTier2 22 = Some (ScanAdvance 8000)
   \<and> bestPhaseByBand (scan (stopExplore \<lparr>audio = silentAudio, scan = midTier2\<rparr>)) ''7.83''
       = Some \<lparr>phase = 90, count = 1\<rparr>
   \<and> stored (scan (stopExplore \<lparr>audio = silentAudio, scan = midTier2\<rparr>)) ''7.83''
       = Some \<lparr>phase = 90, count = 1\<rparr>
   \<and> \<not> scanning (scan (stopExplore \<lparr>audio = silentAudio, scan = midTier2\<rparr>))
   \<and> scanPhases (scan (stopExplore \<lparr>audio = silentAudio, scan = midTier2\<rparr>)) = []
   \<and> scanCounts (scan (stopExplore \<lparr>audio = silentAudio, scan = midTier2\<rparr>)) = Map.empty
   \<and> pending (scan (stopExplore \<lparr>audio = silentAudio, scan = midTier2\<rparr>)) 22
       \<noteq> Some (ScanAdvance 8000)"
proof -
  have r: "bestPhaseByBand withRecord ''7.83'' = Some \<lparr>phase = 90, count = 1\<rparr>"
    "stored withRecord ''7.83'' = Some \<lparr>phase = 90, count = 1\<rparr>"
    by (simp_all add: withRecord_def idleScan_def)
  from stop_discards_scan [OF withRecord_inv withRecord_fresh(5) toMidTier2_events(1)
      toMidTier2_run midTier2_fields(1), of silentAudio]
    toMidTier2_events(2) withRecord_inv withRecord_fresh(5) toMidTier2_run r
  show ?thesis
    by (simp add: midTier2_fields)
qed

text \<open>
  The claim as stated fails: a scan started with no record, one mark, then Stop, leaves the
  stored record \<open>{phase: 0, count: 1}\<close>, not the pre-scan value.
\<close>

theorem stop_discards_scan_counterexample:
  "(case run markThenStop idleScan of Inr s \<Rightarrow> stored s ''7.83'' | Inl _ \<Rightarrow> None)
     = Some \<lparr>phase = 0, count = 1\<rparr>
   \<and> stored idleScan ''7.83'' = None"
  by (simp add: markThenStop_def idleScan_def eval_scan)

section \<open>The Tier-2 candidates\<close>

lemma tier1Done_fields:
  "scanning tier1Done" "scanTier tier1Done = 1"
  "scanPhases tier1Done = [0, 60, 120, 180, 240, 300, 360]" "scanIndex tier1Done = 7"
  "scanCounts tier1Done = [1 \<mapsto> 3, 2 \<mapsto> 2]"
  by (simp_all add: tier1Done_def idleScan_def)

lemma handover_any_marks:
  assumes "scanning s" "scanTier s = 1" "scanPhases s \<noteq> []"
    "length (scanPhases s) \<le> scanIndex s"
  shows "\<exists>s'. runScanPhase s = Inr s' \<and> scanTier s' = 2 \<and> scanIndex s' = 0
               \<and> scanPhases s' = [0, 0, 0, 0, 0, 0, 0]"
proof -
  have c: "computePhases s = s"
    using assms(3) by (intro computePhases_unchanged) simp
  from runScanPhase_handover [of s] assms c
  show ?thesis by (simp add: presentCandidate_fields)
qed

lemma jsmod_small:
  assumes "0 \<le> x" "x < m"
  shows "jsmod x m = x"
proof -
  from assms have "0 \<le> x / m" "x / m < 1" by simp_all
  then have "\<lfloor>x / m\<rfloor> = 0" by linarith
  with \<open>0 \<le> x / m\<close> show ?thesis by (simp add: jsmod_def)
qed

lemma jsmod_once: "0 < m \<Longrightarrow> m \<le> x \<Longrightarrow> x < 2 * m \<Longrightarrow> jsmod x m = x - m"
proof -
  assume m: "0 < m" "m \<le> x" "x < 2 * m"
  then have "1 \<le> x / m" "x / m < 2" by (simp_all add: field_simps)
  then have "\<lfloor>x / m\<rfloor> = 1" by linarith
  with m show ?thesis by (simp add: jsmod_def)
qed

lemma results_tier1:
  "results [0, 60, 120, 180, 240, 300, 360] [1 \<mapsto> 3, 2 \<mapsto> 2] =
     [\<lparr>rphase = 60, rcount = 3\<rparr>, \<lparr>rphase = 120, rcount = 2\<rparr>, \<lparr>rphase = 0, rcount = 0\<rparr>,
      \<lparr>rphase = 180, rcount = 0\<rparr>, \<lparr>rphase = 240, rcount = 0\<rparr>, \<lparr>rphase = 300, rcount = 0\<rparr>,
      \<lparr>rphase = 360, rcount = 0\<rparr>]"
  by (simp add: results_def upt_rec)

lemma tier2Phases_tier1:
  "tier2Phases [0, 60, 120, 180, 240, 300, 360] [1 \<mapsto> 3, 2 \<mapsto> 2] =
     [60, 70, 80, 90, 100, 110, 120]"
  unfolding tier2Phases_def results_tier1
  by (simp add: upt_rec jsmod_once jsmod_small)

text \<open>
  C5.  The claim is that Tier 2 sweeps the arc between the two most-marked Tier-1 phases.
  The hand-over clears \<^verbatim>\<open>scanPhases\<close> and \<^verbatim>\<open>scanCounts\<close> before the Tier-2 branch reads
  them, so that branch always ranks an empty list: the seven Tier-2 candidates are all 0,
  whatever was marked.  On the Tier-1 data itself the same computation would give 60, 70,
  ..., 120.
\<close>

theorem tier2_ignores_tier1_marks:
  "(case runScanPhase tier1Done of Inr s' \<Rightarrow> scanPhases s' | Inl _ \<Rightarrow> [])
     = [0, 0, 0, 0, 0, 0, 0]
   \<and> tier2Phases (scanPhases tier1Done) (scanCounts tier1Done) = [60, 70, 80, 90, 100, 110, 120]"
proof -
  have h: "scanning tier1Done" "scanTier tier1Done = 1" "scanPhases tier1Done \<noteq> []"
    "length (scanPhases tier1Done) \<le> scanIndex tier1Done"
    by (simp_all add: tier1Done_fields)
  from handover_any_marks [OF h] obtain s' where "runScanPhase tier1Done = Inr s'"
    "scanPhases s' = [0, 0, 0, 0, 0, 0, 0]" by blast
  then have "(case runScanPhase tier1Done of Inr s' \<Rightarrow> scanPhases s' | Inl _ \<Rightarrow> [])
     = [0, 0, 0, 0, 0, 0, 0]" by simp
  moreover have "tier2Phases (scanPhases tier1Done) (scanCounts tier1Done) =
     [60, 70, 80, 90, 100, 110, 120]"
    unfolding tier1Done_fields by (rule tier2Phases_tier1)
  ultimately show ?thesis by (rule conjI)
qed

section \<open>The range of stored phases\<close>

text \<open>
  C9, as the code has it.  Starting from records, slider value and candidates within
  0 to 360 degrees, every record that marking, scan completion or loading leaves in memory
  or in storage has its phase in the closed interval from 0 to 360 (360 included) and a
  count that is not negative.
\<close>

theorem records_in_closed_range:
  assumes "scanInv s" "\<forall>e \<in> set es. sliderEvent e" "run es s = Inr s'"
  shows "\<forall>k r. bestPhaseByBand s' k = Some r \<or> stored s' k = Some r \<longrightarrow>
           0 \<le> phase r \<and> phase r \<le> 360 \<and> 0 \<le> count r"
proof -
  have "scanInv s'" by (rule run_inv [OF assms])
  then show ?thesis
    by (auto simp: scanInv_def recordsInRange_def inRange_def)
qed

lemma tier1Fifth_inv: "scanInv tier1Fifth"
  by (simp add: scanInv_def tier1Fifth_def idleScan_def recordsInRange_def timersOwned_def
        inRange_def)

lemma markAtLast_run:
  "\<exists>s'. run markAtLast tier1Fifth = Inr s'
      \<and> bestPhaseByBand s' ''7.83'' = Some \<lparr>phase = 360, count = 1\<rparr>
      \<and> stored s' ''7.83'' = Some \<lparr>phase = 360, count = 1\<rparr>"
  by (simp add: markAtLast_def tier1Fifth_def idleScan_def eval_scan)

theorem records_in_closed_range_witness:
  "scanInv tier1Fifth \<and> sliderEvent (TimerFires 12) \<and> sliderEvent Mark
   \<and> (\<exists>s'. run markAtLast tier1Fifth = Inr s'
         \<and> stored s' ''7.83'' = Some \<lparr>phase = 360, count = 1\<rparr>
         \<and> (0::real) \<le> 360 \<and> (360::real) \<le> 360)"
proof -
  from markAtLast_run obtain s' where r: "run markAtLast tier1Fifth = Inr s'"
    and st: "stored s' ''7.83'' = Some \<lparr>phase = 360, count = 1\<rparr>" by blast
  have e: "\<forall>e \<in> set markAtLast. sliderEvent e"
    by (simp add: markAtLast_def sliderEvent_def)
  from records_in_closed_range [OF tier1Fifth_inv e r] st
  have "0 \<le> phase \<lparr>phase = 360, count = 1\<rparr> \<and> phase \<lparr>phase = 360, count = 1\<rparr> \<le> 360"
    by blast
  with r st tier1Fifth_inv show ?thesis
    by (auto simp: sliderEvent_def)
qed

text \<open>
  The claim as stated fails: a mark at the Tier-1 candidate 360 on an empty record stores
  phase 360, which is not below 360.
\<close>

theorem records_in_closed_range_counterexample:
  "(case run markAtLast tier1Fifth of
      Inr s' \<Rightarrow> map_option phase (stored s' ''7.83'') | Inl _ \<Rightarrow> None) = Some 360
   \<and> \<not> ((360::real) < 360)"
proof -
  from markAtLast_run obtain s' where "run markAtLast tier1Fifth = Inr s'"
    "stored s' ''7.83'' = Some \<lparr>phase = 360, count = 1\<rparr>" by blast
  then show ?thesis by simp
qed

end
